theory Spec2Isabelle
  imports Main
begin

section \<open>JavaScript strings\<close>

text \<open>
  A JavaScript string is modelled as a \<^typ>\<open>string\<close>; one \<^typ>\<open>char\<close> stands for one
  UTF-16 code unit (the model keeps to the code units below 256), so \<^const>\<open>length\<close> is the
  \<^verbatim>\<open>.length\<close> of the source.
\<close>

text \<open>The white space that \<^verbatim>\<open>String.prototype.trim\<close> removes, among the code units below 256.\<close>

definition is_ws :: "char \<Rightarrow> bool" where
  "is_ws c = (c = CHR 0x09 \<or> c = CHR 0x0A \<or> c = CHR 0x0B \<or> c = CHR 0x0C \<or>
              c = CHR 0x0D \<or> c = CHR '' '' \<or> c = CHR 0xA0)"

definition trim :: "string \<Rightarrow> string" where
  "trim s = rev (dropWhile is_ws (rev (dropWhile is_ws s)))"

text \<open>\<^verbatim>\<open>s.lastIndexOf(c)\<close>: the last index of \<open>c\<close> in \<open>s\<close>, or \<open>-1\<close>.\<close>

fun lastIndexOf :: "string \<Rightarrow> char \<Rightarrow> int" where
  "lastIndexOf [] c = - 1"
| "lastIndexOf (x # xs) c =
     (let r = lastIndexOf xs c in if 0 \<le> r then r + 1 else if x = c then 0 else - 1)"

text \<open>\<^verbatim>\<open>xs.join(sep)\<close>.\<close>

fun join :: "string \<Rightarrow> string list \<Rightarrow> string" where
  "join sep [] = []"
| "join sep [x] = x"
| "join sep (x # y # ys) = x @ sep @ join sep (y # ys)"

text \<open>A number in a template literal: its decimal digits.\<close>

definition digitChar :: "nat \<Rightarrow> char" where
  "digitChar d =
     (if d = 0 then CHR ''0'' else if d = 1 then CHR ''1'' else if d = 2 then CHR ''2''
      else if d = 3 then CHR ''3'' else if d = 4 then CHR ''4'' else if d = 5 then CHR ''5''
      else if d = 6 then CHR ''6'' else if d = 7 then CHR ''7'' else if d = 8 then CHR ''8''
      else CHR ''9'')"

fun show_nat :: "nat \<Rightarrow> string" where
  "show_nat n =
     (if n < 10 then [digitChar n] else show_nat (n div 10) @ [digitChar (n mod 10)])"

declare show_nat.simps [simp del]

section \<open>Outbound chunking (src/utils/sms.js)\<close>

text \<open>
  The \<^verbatim>\<open>while (remaining.length > 0)\<close> loop of \<^verbatim>\<open>chunkMessage\<close>, returning the
  chunks it pushes. When the split point is 0 and trimming leaves \<open>remaining\<close> as it is,
  the source's loop repeats the same state for ever; that is the value \<open>None\<close>.
\<close>

definition splitPointOf :: "nat \<Rightarrow> string \<Rightarrow> nat" where
  "splitPointOf maxLength remaining =
     (if maxLength < length remaining then
        (let lastSpace = lastIndexOf (take maxLength remaining) CHR '' ''
         in if 0 < lastSpace then nat lastSpace else maxLength)
      else length remaining)"

function chunkLoop :: "nat \<Rightarrow> string \<Rightarrow> string list option" where
  "chunkLoop maxLength remaining =
     (if 0 < length remaining then
        (let splitPoint = splitPointOf maxLength remaining;
             chunk = trim (take splitPoint remaining);
             remaining' = trim (drop splitPoint remaining)
         in if splitPoint = 0 \<and> remaining' = remaining then None
            else map_option ((#) chunk) (chunkLoop maxLength remaining'))
      else Some [])"
  by pat_completeness auto

lemma length_trim_le: "length (trim s) \<le> length s"
proof -
  have "length (trim s) \<le> length (dropWhile is_ws s)"
    unfolding trim_def by (simp add: length_dropWhile_le order_trans [OF length_dropWhile_le])
  also have "\<dots> \<le> length s" by (rule length_dropWhile_le)
  finally show ?thesis .
qed

lemma dropWhile_same_length: "length (dropWhile P xs) = length xs \<Longrightarrow> dropWhile P xs = xs"
proof (cases xs)
  case Nil
  then show ?thesis by simp
next
  case (Cons x xs')
  assume len: "length (dropWhile P xs) = length xs"
  show ?thesis
  proof (cases "P x")
    case True
    have "length (dropWhile P xs') \<le> length xs'" by (rule length_dropWhile_le)
    with True Cons len show ?thesis by simp
  next
    case False
    with Cons show ?thesis by simp
  qed
qed

lemma trim_same_length: "length (trim s) = length s \<Longrightarrow> trim s = s"
proof -
  assume len: "length (trim s) = length s"
  have a: "length (trim s) \<le> length (dropWhile is_ws s)"
    unfolding trim_def by (simp add: order_trans [OF length_dropWhile_le])
  have b: "length (dropWhile is_ws s) \<le> length s" by (rule length_dropWhile_le)
  from len a b have l1: "length (dropWhile is_ws s) = length s" by simp
  then have e1: "dropWhile is_ws s = s" by (rule dropWhile_same_length)
  from len e1 have "length (dropWhile is_ws (rev s)) = length (rev s)"
    unfolding trim_def by simp
  then have "dropWhile is_ws (rev s) = rev s" by (rule dropWhile_same_length)
  with e1 show ?thesis unfolding trim_def by simp
qed

termination chunkLoop
proof (relation "measure (\<lambda>(maxLength, remaining). length remaining)")
  show "wf (measure (\<lambda>(maxLength, remaining). length remaining))" by simp
next
  fix maxLength :: nat and remaining :: string and x xa xb
  assume nonempty: "0 < length remaining"
    and x: "x = splitPointOf maxLength remaining"
    and xb: "xb = trim (drop x remaining)"
    and go: "\<not> (x = 0 \<and> xb = remaining)"
  have le: "length xb \<le> length remaining - x"
    using length_trim_le [of "drop x remaining"] xb by simp
  have "length xb < length remaining"
  proof (cases "x = 0")
    case True
    with go xb have ne: "trim remaining \<noteq> remaining" by simp
    have "length (trim remaining) \<noteq> length remaining"
      using ne trim_same_length by blast
    with length_trim_le [of remaining] True xb show ?thesis by simp
  next
    case False
    with le nonempty show ?thesis by arith
  qed
  then show "((maxLength, xb), maxLength, remaining) \<in> measure (\<lambda>(maxLength, remaining). length remaining)"
    by simp
qed

declare chunkLoop.simps [simp del]

text \<open>The marker \<^verbatim>\<open>(${i + 1}/${chunks.length}) \<close> put before a chunk.\<close>

definition partMarker :: "nat \<Rightarrow> nat \<Rightarrow> string" where
  "partMarker i n = ''('' @ show_nat i @ ''/'' @ show_nat n @ '') ''"

definition addPartNumbers :: "string list \<Rightarrow> string list" where
  "addPartNumbers chunks =
     map (\<lambda>(i, chunk). partMarker (i + 1) (length chunks) @ chunk) (enumerate 0 chunks)"

definition chunkMessage :: "string \<Rightarrow> nat \<Rightarrow> string list option" where
  "chunkMessage message maxLength =
     (if length message \<le> maxLength then Some [message]
      else case chunkLoop maxLength message of
             None \<Rightarrow> None
           | Some chunks \<Rightarrow>
               Some (if 1 < length chunks then addPartNumbers chunks else chunks))"

text \<open>\<^verbatim>\<open>sendSMS\<close> calls \<^verbatim>\<open>chunkMessage(message)\<close>: the default limit, 300.\<close>

definition defaultMaxLength :: nat where
  "defaultMaxLength = 300"

text \<open>
  Reading the chunks back: the marker of chunk \<open>i\<close> of \<open>n\<close> is removed again. Only a
  list of more than one chunk carries markers.
\<close>

definition stripMarkers :: "string list \<Rightarrow> string list" where
  "stripMarkers cs =
     (if 1 < length cs
      then map (\<lambda>(i, c). drop (length (partMarker (i + 1) (length cs))) c) (enumerate 0 cs)
      else cs)"

text \<open>
  Putting chunks back together: \<open>weave gaps chunks\<close> is the first gap, the first chunk,
  the second gap, the second chunk and so on, up to the gap after the last chunk. A
  string is blank when it holds white space only.
\<close>

definition isBlank :: "string \<Rightarrow> bool" where
  "isBlank s = list_all is_ws s"

fun weave :: "string list \<Rightarrow> string list \<Rightarrow> string" where
  "weave (gap # gaps) (chunk # chunks) = gap @ chunk @ weave gaps chunks"
| "weave gaps [] = concat gaps"
| "weave [] chunks = concat chunks"

section \<open>Reasoning responses and tool results\<close>

text \<open>
  What \<^verbatim>\<open>openai.responses.create\<close> returns, as far as the agents read it: the
  convenience field \<^verbatim>\<open>output_text\<close> and the \<^verbatim>\<open>output\<close> array (the field \<open>output_items\<close>). A content part is
  \<open>NullPart\<close> when it is falsy; a text that is missing or falsy is the empty string.
\<close>

datatype content_part = NullPart | ContentPart string string

datatype output_item =
    FunctionCall string string
  | Message string "content_part list option"
  | OtherItem

record response =
  output_text :: "string option"
  output_items :: "output_item list option"

text \<open>\<^verbatim>\<open>currentResponse.output?.filter(item => item.type === 'function_call') || []\<close>,
  each call as its \<^verbatim>\<open>name\<close> and its \<^verbatim>\<open>arguments\<close> string.\<close>

fun callsOf :: "output_item list \<Rightarrow> (string \<times> string) list" where
  "callsOf [] = []"
| "callsOf (FunctionCall name argsString # items) = (name, argsString) # callsOf items"
| "callsOf (_ # items) = callsOf items"

definition functionCalls :: "response \<Rightarrow> (string \<times> string) list" where
  "functionCalls r = (case output_items r of None \<Rightarrow> [] | Some items \<Rightarrow> callsOf items)"

text \<open>The text parts of the message items:
  \<^verbatim>\<open>.filter(i => i.type === 'message').flatMap(m => Array.isArray(m.content) ? m.content : [])\<close>
  \<^verbatim>\<open>.filter(p => p && (p.type === 'output_text' || p.type === 'text')).map(p => p.text).filter(Boolean)\<close>.\<close>

fun contentsOf :: "output_item list \<Rightarrow> content_part list" where
  "contentsOf [] = []"
| "contentsOf (Message role (Some content) # items) = content @ contentsOf items"
| "contentsOf (_ # items) = contentsOf items"

fun textsOf :: "content_part list \<Rightarrow> string list" where
  "textsOf [] = []"
| "textsOf (ContentPart type text # ps) =
     (if (type = ''output_text'' \<or> type = ''text'') \<and> text \<noteq> [] then text # textsOf ps
      else textsOf ps)"
| "textsOf (NullPart # ps) = textsOf ps"

text \<open>The first two steps of every agent's final text extraction: the trimmed
  \<^verbatim>\<open>output_text\<close>, and when that is empty the text parts joined with a newline.\<close>

definition extractFinalText :: "response \<Rightarrow> string" where
  "extractFinalText r =
     (let finalText = trim (case output_text r of None \<Rightarrow> [] | Some t \<Rightarrow> t)
      in if finalText = [] then
           (case output_items r of
              None \<Rightarrow> finalText
            | Some items \<Rightarrow> trim (join [CHR 0x0A] (textsOf (contentsOf items))))
         else finalText)"

text \<open>
  What a tool returns: \<^verbatim>\<open>null\<close>, a string, or an object. Of an object the agents read
  the \<^verbatim>\<open>message\<close> field (a string when present); the other fields are kept as they
  are. \<open>truthy\<close> is JavaScript's truthiness of the value.
\<close>

datatype tool_result =
    ResultNull
  | ResultString string
  | ResultObject "string option" "(string \<times> string) list"

fun truthy :: "tool_result \<Rightarrow> bool" where
  "truthy ResultNull = False"
| "truthy (ResultString s) = (s \<noteq> [])"
| "truthy (ResultObject message others) = True"

section \<open>Final text of the generic specialist (agents/base-agent.js, SubAgent.process)\<close>

definition dataFoundMessage :: string where
  "dataFoundMessage = ''I found the data you requested. The analysis shows multiple records with varying performance metrics. Please be more specific about which aspects you'' @ [CHR 0x27] @ ''d like me to analyze.''"

definition noResponseApology :: string where
  "noResponseApology = ''I apologize, but I couldn'' @ [CHR 0x27] @ ''t generate a response. Please try again.''"

definition summaryOf :: "tool_result \<Rightarrow> string" where
  "summaryOf lastToolResult =
     (case lastToolResult of
        ResultString s \<Rightarrow> (if length s < 500 then take 500 s else dataFoundMessage)
      | ResultObject message others \<Rightarrow>
          (case message of
             Some m \<Rightarrow> (if m \<noteq> [] \<and> length m < 500 then m else dataFoundMessage)
           | None \<Rightarrow> dataFoundMessage)
      | ResultNull \<Rightarrow> dataFoundMessage)"

definition finalize :: "response \<Rightarrow> tool_result \<Rightarrow> string" where
  "finalize currentResponse lastToolResult =
     (let finalText = extractFinalText currentResponse;
          finalText = (if finalText = [] \<and> truthy lastToolResult then summaryOf lastToolResult
                       else finalText)
      in if finalText = [] then noResponseApology else finalText)"

section \<open>Final text of the property specialist (RealEstateAgent.handleToolCalls)\<close>

definition propertyDetailsPrefix :: string where
  "propertyDetailsPrefix = ''I retrieved the property information successfully. Here are the details: ''"

definition noPropertyResponseApology :: string where
  "noPropertyResponseApology = ''I apologize, but I couldn'' @ [CHR 0x27] @ ''t generate a response about the property. Please try again.''"

text \<open>\<open>stringify\<close> is \<^verbatim>\<open>JSON.stringify\<close>, taken as it is.\<close>

definition realEstateSummaryOf :: "(tool_result \<Rightarrow> string) \<Rightarrow> tool_result \<Rightarrow> string" where
  "realEstateSummaryOf stringify lastToolResult =
     (case lastToolResult of
        ResultString s \<Rightarrow> s
      | ResultObject message others \<Rightarrow>
          (case message of
             Some m \<Rightarrow> (if m \<noteq> [] then m else propertyDetailsPrefix @ stringify lastToolResult)
           | None \<Rightarrow> propertyDetailsPrefix @ stringify lastToolResult)
      | ResultNull \<Rightarrow> propertyDetailsPrefix @ stringify lastToolResult)"

definition realEstateFinalize :: "(tool_result \<Rightarrow> string) \<Rightarrow> response \<Rightarrow> tool_result \<Rightarrow> string" where
  "realEstateFinalize stringify currentResponse lastToolResult =
     (let finalText = extractFinalText currentResponse;
          finalText = (if finalText = [] \<and> truthy lastToolResult
                       then realEstateSummaryOf stringify lastToolResult else finalText)
      in if finalText = [] then noPropertyResponseApology else finalText)"

section \<open>The tool-calling loop of the generic specialist (SubAgent.process)\<close>

text \<open>\<^verbatim>\<open>toLowerCase\<close> on the code units below 256: the letters A to Z, and the capital
  letters from 0xC0 to 0xDE other than the multiplication sign 0xD7, go to the code unit
  0x20 above them; every other code unit stays.\<close>

definition lowerChar :: "char \<Rightarrow> char" where
  "lowerChar c =
     (case map_of
        (zip (''ABCDEFGHIJKLMNOPQRSTUVWXYZ'' @
              [CHR 0xC0, CHR 0xC1, CHR 0xC2, CHR 0xC3, CHR 0xC4, CHR 0xC5, CHR 0xC6, CHR 0xC7,
               CHR 0xC8, CHR 0xC9, CHR 0xCA, CHR 0xCB, CHR 0xCC, CHR 0xCD, CHR 0xCE, CHR 0xCF,
               CHR 0xD0, CHR 0xD1, CHR 0xD2, CHR 0xD3, CHR 0xD4, CHR 0xD5, CHR 0xD6,
               CHR 0xD8, CHR 0xD9, CHR 0xDA, CHR 0xDB, CHR 0xDC, CHR 0xDD, CHR 0xDE])
             (''abcdefghijklmnopqrstuvwxyz'' @
              [CHR 0xE0, CHR 0xE1, CHR 0xE2, CHR 0xE3, CHR 0xE4, CHR 0xE5, CHR 0xE6, CHR 0xE7,
               CHR 0xE8, CHR 0xE9, CHR 0xEA, CHR 0xEB, CHR 0xEC, CHR 0xED, CHR 0xEE, CHR 0xEF,
               CHR 0xF0, CHR 0xF1, CHR 0xF2, CHR 0xF3, CHR 0xF4, CHR 0xF5, CHR 0xF6,
               CHR 0xF8, CHR 0xF9, CHR 0xFA, CHR 0xFB, CHR 0xFC, CHR 0xFD, CHR 0xFE])) c of
        Some l \<Rightarrow> l
      | None \<Rightarrow> c)"

definition toLowerCase :: "string \<Rightarrow> string" where
  "toLowerCase s = map lowerChar s"

text \<open>\<^verbatim>\<open>s.split(/\s+/)\<close>: \<open>cur\<close> holds the characters of the current piece, last first.\<close>

function splitWs :: "string \<Rightarrow> string \<Rightarrow> string list" where
  "splitWs cur [] = [rev cur]"
| "splitWs cur (c # cs) =
     (if is_ws c then rev cur # splitWs [] (dropWhile is_ws cs) else splitWs (c # cur) cs)"
  by pat_completeness auto
termination
  by (relation "measure (\<lambda>(cur, s). length s)")
     (auto simp: less_Suc_eq_le length_dropWhile_le)

text \<open>
  The arguments of a tool call are a list of keys with their values; \<^verbatim>\<open>Object.keys(args).length === 0\<close>
  is the empty list. \<^verbatim>\<open>JSON.parse\<close> throws, returns \<^verbatim>\<open>null\<close>, or returns a value with
  these keys.
\<close>

type_synonym args = "(string \<times> string) list"

datatype parsed = ParseError | ParsedNull | Parsed args

datatype exn = TypeError | SyntaxError | Thrown string

text \<open>
  What happens in a loop run, in order: a tool call that got past the skip checks, with
  how it ended, and a follow-up reasoning request, with whether the tools were withdrawn
  and whether it returned.
\<close>

datatype attempt_outcome = ParseFailed | FallbackFailed | ExecThrew | ExecReturned

datatype event = ToolAttempt string attempt_outcome | FollowUp bool bool

text \<open>
  The collaborators of a loop run. \<open>JSON_parse\<close> is \<^verbatim>\<open>JSON.parse\<close>. \<open>patternFallback\<close>
  is the key and value that the regular expressions of \<^verbatim>\<open>extractFallbackParameters\<close>
  find for one of the five tool names it knows. \<open>toolExecutor\<close> and \<open>reasoning\<close>
  (\<^verbatim>\<open>openai.responses.create\<close> after a tool result) return or throw; their first argument
  is the number of events before the call, so that the same call can end differently later.
\<close>

record env =
  JSON_parse :: "string \<Rightarrow> parsed"
  patternFallback :: "string \<Rightarrow> string \<Rightarrow> string \<times> string"
  toolExecutor :: "nat \<Rightarrow> string \<Rightarrow> args option \<Rightarrow> exn + tool_result"
  reasoning :: "nat \<Rightarrow> (string \<times> tool_result) list \<Rightarrow> bool \<Rightarrow> exn + response"

definition knownFallbackTools :: "string list" where
  "knownFallbackTools = [''web_search_sms'', ''smart_data_query_sms'',
     ''smart_property_search_sms'', ''attom_property_search_sms'',
     ''rentcast_property_search_sms'']"

definition fallbackStopWords :: "string list" where
  "fallbackStopWords = [''what'', ''are'', ''the'', ''can'', ''you'', ''tell'', ''me'', ''show'',
     ''give'', ''find'', ''about'']"

definition extractFallbackParameters :: "env \<Rightarrow> string \<Rightarrow> string \<Rightarrow> args" where
  "extractFallbackParameters e toolName userMessage =
     (if toolName \<in> set knownFallbackTools then [patternFallback e toolName userMessage]
      else
        (let words = splitWs [] (toLowerCase userMessage);
             meaningfulWords =
               filter (\<lambda>word. 3 < length word \<and> word \<notin> set fallbackStopWords) words
         in if 0 < length meaningfulWords
            then [(''query'', join '' '' (take 3 meaningfulWords))]
            else []))"

record loop_state =
  currentResponse :: response
  iterations :: nat
  lastToolResult :: tool_result
  successfulTools :: "string list"
  failedAttempts :: "string \<Rightarrow> nat option"
  allToolResults :: "(string \<times> tool_result) list"
  toolsExecutedThisIteration :: bool
  trace :: "event list"

definition maxIterations :: nat where
  "maxIterations = 10"

text \<open>How the body of the \<^verbatim>\<open>for\<close> loop ends for one call, and how the loops end.\<close>

datatype 's step = Continue 's | Break 's | ReturnNow string 's | Escape exn 's

datatype 's flow = Proceed 's | Return string 's | Throw exn 's

fun forEachCall ::
  "((string \<times> string) \<Rightarrow> 's \<Rightarrow> 's step) \<Rightarrow> (string \<times> string) list \<Rightarrow> 's \<Rightarrow> 's flow" where
  "forEachCall body [] s = Proceed s"
| "forEachCall body (functionCall # rest) s =
     (case body functionCall s of
        Continue s' \<Rightarrow> forEachCall body rest s'
      | Break s' \<Rightarrow> Proceed s'
      | ReturnNow content s' \<Rightarrow> Return content s'
      | Escape error s' \<Rightarrow> Throw error s')"

definition recordFailure :: "string \<Rightarrow> nat \<Rightarrow> attempt_outcome \<Rightarrow> loop_state \<Rightarrow> loop_state" where
  "recordFailure name failedCount how s =
     s\<lparr>failedAttempts := (failedAttempts s)(name \<mapsto> failedCount + 1),
       trace := trace s @ [ToolAttempt name how]\<rparr>"

text \<open>After the tool returned: the bookkeeping, the decision to withdraw the tools, and
  the follow-up reasoning request, which is inside the same \<^verbatim>\<open>try\<close>.\<close>

definition toolReturned :: "env \<Rightarrow> string \<Rightarrow> nat \<Rightarrow> tool_result \<Rightarrow> loop_state \<Rightarrow> loop_state step" where
  "toolReturned e name failedCount toolResult s =
     (let s1 = s\<lparr>successfulTools := List.insert name (successfulTools s),
                  allToolResults := allToolResults s @ [(name, toolResult)],
                  lastToolResult := toolResult,
                  toolsExecutedThisIteration := True,
                  trace := trace s @ [ToolAttempt name ExecReturned]\<rparr>;
          shouldDisableTools =
            (''smart_data_query_sms'' \<in> set (successfulTools s1)
             \<or> 2 \<le> length (successfulTools s1)
             \<or> 3 \<le> iterations s1)
      in case reasoning e (length (trace s1)) (allToolResults s1) shouldDisableTools of
           Inr followUp \<Rightarrow>
             Break (s1\<lparr>currentResponse := followUp,
                       trace := trace s1 @ [FollowUp shouldDisableTools True]\<rparr>)
         | Inl error \<Rightarrow>
             Continue (s1\<lparr>failedAttempts := (failedAttempts s1)(name \<mapsto> failedCount + 1),
                          trace := trace s1 @ [FollowUp shouldDisableTools False]\<rparr>))"

definition callStep :: "env \<Rightarrow> string \<Rightarrow> (string \<times> string) \<Rightarrow> loop_state \<Rightarrow> loop_state step" where
  "callStep e userMessage functionCall s =
     (let name = fst functionCall; argsString = snd functionCall
      in if name \<in> set (successfulTools s) then Continue s
         else
           (let failedCount = (case failedAttempts s name of None \<Rightarrow> 0 | Some n \<Rightarrow> n)
            in if 2 \<le> failedCount then Continue s
               else
                 (case JSON_parse e argsString of
                    ParseError \<Rightarrow> Continue (recordFailure name failedCount ParseFailed s)
                  | ParsedNull \<Rightarrow> Escape TypeError s
                  | Parsed parsedArgs \<Rightarrow>
                      (let fallbackArgs = extractFallbackParameters e name userMessage
                       in if parsedArgs = [] \<and> fallbackArgs = []
                          then Continue (recordFailure name failedCount FallbackFailed s)
                          else
                            (let args = (if parsedArgs = [] then fallbackArgs else parsedArgs)
                             in case toolExecutor e (length (trace s)) name (Some args) of
                                  Inl error \<Rightarrow>
                                    Continue (recordFailure name failedCount ExecThrew s)
                                | Inr toolResult \<Rightarrow>
                                    toolReturned e name failedCount toolResult s)))))"

function processLoop :: "env \<Rightarrow> string \<Rightarrow> loop_state \<Rightarrow> loop_state flow" where
  "processLoop e userMessage s =
     (if iterations s < maxIterations then
        (let s1 = s\<lparr>iterations := iterations s + 1, toolsExecutedThisIteration := False\<rparr>;
             calls = functionCalls (currentResponse s1)
         in if calls = [] then Proceed s1
            else
              (case forEachCall (callStep e userMessage) calls s1 of
                 Proceed s2 \<Rightarrow>
                   if \<not> toolsExecutedThisIteration s2 then Proceed s2
                   else processLoop e userMessage s2
               | Return content s2 \<Rightarrow> Return content s2
               | Throw error s2 \<Rightarrow> Throw error s2))
      else Proceed s)"
  by pat_completeness auto

text \<open>The state a step or a loop ends in, however it ends.\<close>

fun stateOfStep :: "'s step \<Rightarrow> 's" where
  "stateOfStep (Continue s) = s"
| "stateOfStep (Break s) = s"
| "stateOfStep (ReturnNow content s) = s"
| "stateOfStep (Escape error s) = s"

fun stateOf :: "'s flow \<Rightarrow> 's" where
  "stateOf (Proceed s) = s"
| "stateOf (Return content s) = s"
| "stateOf (Throw error s) = s"

lemma forEachCall_preserves:
  assumes step: "\<And>c s. P s \<Longrightarrow> P (stateOfStep (body c s))"
  shows "P s \<Longrightarrow> P (stateOf (forEachCall body calls s))"
proof (induction calls arbitrary: s)
  case Nil
  then show ?case by simp
next
  case (Cons c calls)
  from step [OF Cons.prems, of c] have next_ok: "P (stateOfStep (body c s))" .
  show ?case
  proof (cases "body c s")
    case (Continue s')
    with next_ok have "P s'" by simp
    from Cons.IH [OF this] Continue show ?thesis by simp
  next
    case (Break s')
    with next_ok show ?thesis by simp
  next
    case (ReturnNow content s')
    with next_ok show ?thesis by simp
  next
    case (Escape error s')
    with next_ok show ?thesis by simp
  qed
qed

lemma toolReturned_iterations:
  "iterations (stateOfStep (toolReturned e name failedCount toolResult s)) = iterations s"
  by (simp add: toolReturned_def Let_def split: sum.split)

lemma callStep_iterations: "iterations (stateOfStep (callStep e um c s)) = iterations s"
  by (simp add: callStep_def Let_def recordFailure_def toolReturned_iterations
      split: parsed.split sum.split)

lemma forEachCall_iterations:
  "iterations (stateOf (forEachCall (callStep e um) calls s)) = iterations s"
  using forEachCall_preserves [where P = "\<lambda>t. iterations t = iterations s"
      and body = "callStep e um" and s = s and calls = calls]
  by (simp add: callStep_iterations)

termination processLoop
proof (relation "measure (\<lambda>(e, um, s). maxIterations - iterations s)")
  show "wf (measure (\<lambda>(e, um, s). maxIterations - iterations s))" by simp
next
  fix e :: env and userMessage :: string and s s1 :: loop_state and calls x2
  assume lt: "iterations s < maxIterations"
    and s1: "s1 = s\<lparr>iterations := iterations s + 1, toolsExecutedThisIteration := False\<rparr>"
    and res: "forEachCall (callStep e userMessage) calls s1 = Proceed x2"
  have "iterations x2 = iterations s1"
    using forEachCall_iterations [of e userMessage calls s1] res by simp
  with s1 lt show "((e, userMessage, x2), e, userMessage, s)
      \<in> measure (\<lambda>(e, um, s). maxIterations - iterations s)"
    by simp
qed

declare processLoop.simps [simp del]

text \<open>The locals of \<^verbatim>\<open>process\<close> before the loop, and \<^verbatim>\<open>process\<close> from the first
  response on: the loop, then the final text. The reply is its \<^verbatim>\<open>content\<close>.\<close>

definition initialState :: "response \<Rightarrow> loop_state" where
  "initialState response =
     \<lparr>currentResponse = response, iterations = 0, lastToolResult = ResultNull,
      successfulTools = [], failedAttempts = Map.empty, allToolResults = [],
      toolsExecutedThisIteration = False, trace = []\<rparr>"

definition process :: "env \<Rightarrow> string \<Rightarrow> response \<Rightarrow> exn + string" where
  "process e userMessage response =
     (case processLoop e userMessage (initialState response) of
        Proceed s \<Rightarrow> Inr (finalize (currentResponse s) (lastToolResult s))
      | Return content s \<Rightarrow> Inr content
      | Throw error s \<Rightarrow> Inl error)"

section \<open>The tool-calling loop of the property and business specialists (handleToolCalls)\<close>

text \<open>
  \<^verbatim>\<open>RealEstateAgent.handleToolCalls\<close> and \<^verbatim>\<open>BusinessAgent.handleToolCalls\<close> are the
  same loop up to four things, gathered in a \<open>specialist\<close>: the tool whose success
  withdraws the tools, the apology returned when a tool throws, the iteration count from
  which the tools are withdrawn, and whether the loop is left when an iteration ran no
  tool (only the business specialist has \<^verbatim>\<open>toolsExecutedThisIteration\<close>). Their set
  \<^verbatim>\<open>calledTools\<close> is the field \<open>successfulTools\<close> of the state; they keep no failure
  counts. \<^verbatim>\<open>JSON.parse\<close> is outside the \<^verbatim>\<open>try\<close>, the follow-up request inside it.
\<close>

record specialist =
  primaryTool :: string
  toolErrorApology :: string
  iterationThreshold :: nat
  breaksWhenIdle :: bool

definition realEstateAgent :: specialist where
  "realEstateAgent =
     \<lparr>primaryTool = ''smart_property_search_sms'',
      toolErrorApology = ''I apologize, but I encountered an error processing your property request. Please try again.'',
      iterationThreshold = 2,
      breaksWhenIdle = False\<rparr>"

definition businessAgent :: specialist where
  "businessAgent =
     \<lparr>primaryTool = ''smart_data_query_sms'',
      toolErrorApology = ''I apologize, but I encountered an error processing your request. Please try again.'',
      iterationThreshold = 2,
      breaksWhenIdle = True\<rparr>"

definition specialistToolReturned ::
  "specialist \<Rightarrow> env \<Rightarrow> string \<Rightarrow> tool_result \<Rightarrow> loop_state \<Rightarrow> loop_state step" where
  "specialistToolReturned cfg e name toolResult s =
     (let s1 = s\<lparr>successfulTools := List.insert name (successfulTools s),
                  allToolResults := allToolResults s @ [(name, toolResult)],
                  lastToolResult := toolResult,
                  toolsExecutedThisIteration := True,
                  trace := trace s @ [ToolAttempt name ExecReturned]\<rparr>;
          shouldDisableTools =
            (primaryTool cfg \<in> set (successfulTools s1)
             \<or> 2 \<le> length (successfulTools s1)
             \<or> iterationThreshold cfg \<le> iterations s1)
      in case reasoning e (length (trace s1)) (allToolResults s1) shouldDisableTools of
           Inr followUp \<Rightarrow>
             Break (s1\<lparr>currentResponse := followUp,
                       trace := trace s1 @ [FollowUp shouldDisableTools True]\<rparr>)
         | Inl error \<Rightarrow>
             ReturnNow (toolErrorApology cfg)
               (s1\<lparr>trace := trace s1 @ [FollowUp shouldDisableTools False]\<rparr>))"

definition specialistExecute ::
  "specialist \<Rightarrow> env \<Rightarrow> string \<Rightarrow> args option \<Rightarrow> loop_state \<Rightarrow> loop_state step" where
  "specialistExecute cfg e name args s =
     (case toolExecutor e (length (trace s)) name args of
        Inl error \<Rightarrow>
          ReturnNow (toolErrorApology cfg) (s\<lparr>trace := trace s @ [ToolAttempt name ExecThrew]\<rparr>)
      | Inr toolResult \<Rightarrow> specialistToolReturned cfg e name toolResult s)"

definition specialistCallStep ::
  "specialist \<Rightarrow> env \<Rightarrow> (string \<times> string) \<Rightarrow> loop_state \<Rightarrow> loop_state step" where
  "specialistCallStep cfg e functionCall s =
     (let name = fst functionCall; argsString = snd functionCall
      in if name \<in> set (successfulTools s) then Continue s
         else
           (case JSON_parse e argsString of
              ParseError \<Rightarrow> Escape SyntaxError s
            | ParsedNull \<Rightarrow> specialistExecute cfg e name None s
            | Parsed args \<Rightarrow> specialistExecute cfg e name (Some args) s))"

function handleToolCallsLoop :: "specialist \<Rightarrow> env \<Rightarrow> loop_state \<Rightarrow> loop_state flow" where
  "handleToolCallsLoop cfg e s =
     (if iterations s < maxIterations then
        (let s1 = s\<lparr>iterations := iterations s + 1, toolsExecutedThisIteration := False\<rparr>;
             calls = functionCalls (currentResponse s1)
         in if calls = [] then Proceed s1
            else
              (case forEachCall (specialistCallStep cfg e) calls s1 of
                 Proceed s2 \<Rightarrow>
                   if breaksWhenIdle cfg \<and> \<not> toolsExecutedThisIteration s2 then Proceed s2
                   else handleToolCallsLoop cfg e s2
               | Return content s2 \<Rightarrow> Return content s2
               | Throw error s2 \<Rightarrow> Throw error s2))
      else Proceed s)"
  by pat_completeness auto

lemma specialistCallStep_iterations:
  "iterations (stateOfStep (specialistCallStep cfg e c s)) = iterations s"
  by (simp add: specialistCallStep_def specialistExecute_def specialistToolReturned_def Let_def
      split: parsed.split sum.split)

lemma forEachSpecialistCall_iterations:
  "iterations (stateOf (forEachCall (specialistCallStep cfg e) calls s)) = iterations s"
  using forEachCall_preserves [where P = "\<lambda>t. iterations t = iterations s"
      and body = "specialistCallStep cfg e" and s = s and calls = calls]
  by (simp add: specialistCallStep_iterations)

termination handleToolCallsLoop
proof (relation "measure (\<lambda>(cfg, e, s). maxIterations - iterations s)")
  show "wf (measure (\<lambda>(cfg, e, s). maxIterations - iterations s))" by simp
next
  fix cfg :: specialist and e :: env and s s1 :: loop_state and calls x2
  assume lt: "iterations s < maxIterations"
    and s1: "s1 = s\<lparr>iterations := iterations s + 1, toolsExecutedThisIteration := False\<rparr>"
    and res: "forEachCall (specialistCallStep cfg e) calls s1 = Proceed x2"
  have "iterations x2 = iterations s1"
    using forEachSpecialistCall_iterations [of cfg e calls s1] res by simp
  with s1 lt show "((cfg, e, x2), cfg, e, s)
      \<in> measure (\<lambda>(cfg, e, s). maxIterations - iterations s)"
    by simp
qed

declare handleToolCallsLoop.simps [simp del]

text \<open>\<^verbatim>\<open>RealEstateAgent.handleToolCalls\<close>: the loop, then the final text.\<close>

definition realEstateHandleToolCalls ::
  "(tool_result \<Rightarrow> string) \<Rightarrow> env \<Rightarrow> response \<Rightarrow> exn + string" where
  "realEstateHandleToolCalls stringify e response =
     (case handleToolCallsLoop realEstateAgent e (initialState response) of
        Proceed s \<Rightarrow> Inr (realEstateFinalize stringify (currentResponse s) (lastToolResult s))
      | Return content s \<Rightarrow> Inr content
      | Throw error s \<Rightarrow> Inl error)"

section \<open>Events of a run and invariants of the loops\<close>

text \<open>A property \<open>P\<close> of the state that holds however a step or a loop ends, except that
  an early return with a content is to satisfy \<open>G\<close>.\<close>

fun stepHolds :: "('s \<Rightarrow> bool) \<Rightarrow> (string \<Rightarrow> 's \<Rightarrow> bool) \<Rightarrow> 's step \<Rightarrow> bool" where
  "stepHolds P G (Continue s) = P s"
| "stepHolds P G (Break s) = P s"
| "stepHolds P G (Escape error s) = P s"
| "stepHolds P G (ReturnNow content s) = G content s"

fun flowHolds :: "('s \<Rightarrow> bool) \<Rightarrow> (string \<Rightarrow> 's \<Rightarrow> bool) \<Rightarrow> 's flow \<Rightarrow> bool" where
  "flowHolds P G (Proceed s) = P s"
| "flowHolds P G (Throw error s) = P s"
| "flowHolds P G (Return content s) = G content s"

text \<open>
  Two facts about the events of a run, used below: after a tool call that returned, there
  is no later call of that tool; and every tool with a call that returned is in
  \<open>successfulTools\<close>.
\<close>

definition settled :: "event list \<Rightarrow> bool" where
  "settled t = (\<forall>before name after how.
      t = before @ ToolAttempt name ExecReturned # after \<longrightarrow> ToolAttempt name how \<notin> set after)"

definition traceOk :: "event list \<Rightarrow> string list \<Rightarrow> bool" where
  "traceOk t done = (settled t \<and> (\<forall>n. ToolAttempt n ExecReturned \<in> set t \<longrightarrow> n \<in> set done))"

definition toolInv :: "loop_state \<Rightarrow> bool" where
  "toolInv s = traceOk (trace s) (successfulTools s)"

text \<open>The failed calls and all the calls of a tool among the events, and the failure count
  kept for it: \<^verbatim>\<open>failedAttempts.get(name) || 0\<close>.\<close>

fun isFailureOf :: "string \<Rightarrow> event \<Rightarrow> bool" where
  "isFailureOf name (ToolAttempt n how) = (n = name \<and> how \<noteq> ExecReturned)"
| "isFailureOf name (FollowUp disabled ok) = False"

fun isAttemptOf :: "string \<Rightarrow> event \<Rightarrow> bool" where
  "isAttemptOf name (ToolAttempt n how) = (n = name)"
| "isAttemptOf name (FollowUp disabled ok) = False"

definition failedCountOf :: "loop_state \<Rightarrow> string \<Rightarrow> nat" where
  "failedCountOf s name = (case failedAttempts s name of None \<Rightarrow> 0 | Some n \<Rightarrow> n)"

definition failInv :: "loop_state \<Rightarrow> bool" where
  "failInv s = (\<forall>name. length (filter (isFailureOf name) (trace s)) \<le> failedCountOf s name
                     \<and> failedCountOf s name \<le> 2)"




section \<open>Routing (agents/router-agent.js and sms/processor.js)\<close>

text \<open>
  The text the router answers with (agents/router-agent.js, \<^verbatim>\<open>RouterAgent.process\<close>, from
  the response on): the trimmed \<^verbatim>\<open>output_text\<close>; when that is empty, the first
  \<^verbatim>\<open>output_text\<close> part with a text, trimmed, of an assistant message, going on to the next
  item while the text is empty; and \<^verbatim>\<open>GENERAL_AGENT\<close> when nothing was found. The router
  reads \<^verbatim>\<open>content.type\<close> without a check, so a part that is \<^verbatim>\<open>null\<close> is a TypeError.
\<close>

fun firstOutputText :: "content_part list \<Rightarrow> string \<Rightarrow> exn + string" where
  "firstOutputText [] finalText = Inr finalText"
| "firstOutputText (NullPart # ps) finalText = Inl TypeError"
| "firstOutputText (ContentPart type text # ps) finalText =
     (if type = ''output_text'' \<and> text \<noteq> [] then Inr (trim text)
      else firstOutputText ps finalText)"

fun routerScan :: "output_item list \<Rightarrow> string \<Rightarrow> exn + string" where
  "routerScan [] finalText = Inr finalText"
| "routerScan (Message role (Some content) # items) finalText =
     (if role = ''assistant'' then
        (case firstOutputText content finalText of
           Inl error \<Rightarrow> Inl error
         | Inr found \<Rightarrow> if found \<noteq> [] then Inr found else routerScan items found)
      else if finalText \<noteq> [] then Inr finalText else routerScan items finalText)"
| "routerScan (item # items) finalText =
     (if finalText \<noteq> [] then Inr finalText else routerScan items finalText)"

definition routerProcess :: "response \<Rightarrow> exn + string" where
  "routerProcess r =
     (let finalText = trim (case output_text r of None \<Rightarrow> [] | Some t \<Rightarrow> t);
          scanned = (if finalText = [] then
                       (case output_items r of
                          None \<Rightarrow> Inr finalText
                        | Some items \<Rightarrow> routerScan items finalText)
                     else Inr finalText)
      in case scanned of
           Inl error \<Rightarrow> Inl error
         | Inr finalText \<Rightarrow> Inr (if finalText = [] then ''GENERAL_AGENT'' else finalText))"

text \<open>
  The choice of the specialist (sms/processor.js, \<^verbatim>\<open>SMSProcessor.process\<close>):
  \<^verbatim>\<open>routeResponse.content.trim()\<close> is looked up in \<^verbatim>\<open>agentMap\<close>, and
  \<^verbatim>\<open>agentMap[specialist] || 'general'\<close> selects the agent. (A key that \<^verbatim>\<open>agentMap\<close> only
  inherits, such as \<^verbatim>\<open>constructor\<close>, names no agent of \<^verbatim>\<open>subAgents\<close>, and
  \<^verbatim>\<open>|| this.subAgents.general\<close> selects the general agent for it as well.)
\<close>

datatype agent_key = Business | RealEstate | General

definition agentMap :: "(string \<times> agent_key) list" where
  "agentMap =
     [(''BUSINESS_AGENT'', Business), (''REAL_ESTATE_AGENT'', RealEstate),
      (''GENERAL_AGENT'', General),
      (''business_agent'', Business), (''real_estate_agent'', RealEstate),
      (''general_agent'', General),
      (''business'', Business), (''real_estate'', RealEstate), (''general'', General)]"

definition selectAgent :: "string \<Rightarrow> agent_key" where
  "selectAgent content =
     (let specialist = trim content
      in case map_of agentMap specialist of Some agentKey \<Rightarrow> agentKey | None \<Rightarrow> General)"

text \<open>The routing as the specification words it: the text is trimmed and
  case-normalised, then matched.\<close>

definition selectAgentAsSpecified :: "string \<Rightarrow> agent_key" where
  "selectAgentAsSpecified content =
     (let specialist = toLowerCase (trim content)
      in case map_of agentMap specialist of Some agentKey \<Rightarrow> agentKey | None \<Rightarrow> General)"

text \<open>
  The routing step of \<^verbatim>\<open>SMSProcessor.process\<close>, from the reasoning request of the router
  to the choice of the specialist. The request (\<^verbatim>\<open>openai.responses.create\<close>) returns a
  response or throws, and \<^verbatim>\<open>RouterAgent.process\<close> has no \<^verbatim>\<open>try\<close>: what the request or the
  reading of the response throws leaves it. The step is inside the \<^verbatim>\<open>try\<close> of
  \<^verbatim>\<open>SMSProcessor.process\<close>, whose \<^verbatim>\<open>catch\<close> sends a fixed error message; no specialist is
  chosen and none runs then.
\<close>

definition routerAgentProcess :: "exn + response \<Rightarrow> exn + string" where
  "routerAgentProcess request =
     (case request of Inl error \<Rightarrow> Inl error | Inr r \<Rightarrow> routerProcess r)"

datatype routing_outcome = HandedTo agent_key | ErrorMessageSent string

definition processingErrorMessage :: string where
  "processingErrorMessage = ''Sorry, I encountered an error processing your message. Please try again.''"

definition routeMessage :: "exn + response \<Rightarrow> routing_outcome" where
  "routeMessage request =
     (case routerAgentProcess request of
        Inl error \<Rightarrow> ErrorMessageSent processingErrorMessage
      | Inr content \<Rightarrow> HandedTo (selectAgent content))"

text \<open>The content parts of the assistant messages of an \<^verbatim>\<open>output\<close> array: the parts the
  router may come to read.\<close>

fun assistantParts :: "output_item list \<Rightarrow> content_part list" where
  "assistantParts [] = []"
| "assistantParts (Message role (Some content) # items) =
     (if role = ''assistant'' then content else []) @ assistantParts items"
| "assistantParts (item # items) = assistantParts items"

section \<open>The property search over several providers (ai/smart-property-search.js)\<close>

text \<open>
  The property search over several providers (ai/smart-property-search.js,
  \<^verbatim>\<open>SmartPropertySearch.executeSmartPropertySearch\<close>). A parameter that is missing is
  \<open>None\<close>; \<open>given\<close> is its truthiness. \<^verbatim>\<open>s.includes(k)\<close> is \<open>includesStr\<close>.
\<close>

record search_params =
  query :: "string option"
  address :: "string option"
  city :: "string option"
  state :: "string option"
  zipCode :: "string option"

definition given :: "string option \<Rightarrow> bool" where
  "given v = (case v of None \<Rightarrow> False | Some s \<Rightarrow> s \<noteq> [])"

definition orEmpty :: "string option \<Rightarrow> string" where
  "orEmpty v = (case v of None \<Rightarrow> [] | Some s \<Rightarrow> s)"

fun isPrefixOf :: "string \<Rightarrow> string \<Rightarrow> bool" where
  "isPrefixOf [] s = True"
| "isPrefixOf (k # ks) [] = False"
| "isPrefixOf (k # ks) (c # cs) = (k = c \<and> isPrefixOf ks cs)"

fun includesStr :: "string \<Rightarrow> string \<Rightarrow> bool" where
  "includesStr [] k = (k = [])"
| "includesStr (c # cs) k = (isPrefixOf k (c # cs) \<or> includesStr cs k)"

definition residentialKeywords :: "string list" where
  "residentialKeywords = [''rent'', ''rental'', ''apartment'', ''condo'', ''house'',
     ''residential'', ''bedroom'', ''bathroom'', ''tenant'', ''lease'', ''monthly'']"

definition isResidentialQuery :: "string \<Rightarrow> bool" where
  "isResidentialQuery q =
     (let lowerQuery = toLowerCase q
      in list_ex (\<lambda>keyword. includesStr lowerQuery keyword) residentialKeywords)"

definition presentParts :: "search_params \<Rightarrow> string list" where
  "presentParts p =
     (if given (address p) then [orEmpty (address p)] else [])
     @ (if given (city p) then [orEmpty (city p)] else [])
     @ (if given (state p) then [orEmpty (state p)] else [])
     @ (if given (zipCode p) then [orEmpty (zipCode p)] else [])"

definition constructFullAddress :: "search_params \<Rightarrow> string" where
  "constructFullAddress p = join '', '' (presentParts p)"

definition constructWebSearchQuery :: "string \<Rightarrow> search_params \<Rightarrow> string" where
  "constructWebSearchQuery q p =
     (let location = join '' '' (presentParts p)
      in trim (q @ '' '' @ location @ '' property real estate''))"

text \<open>The parameters \<^verbatim>\<open>generateAttomParameters\<close> gathers before the optimizer.\<close>

definition attomParameters :: "search_params \<Rightarrow> (string \<times> string) list" where
  "attomParameters p =
     (if given (address p) then [(''address'', orEmpty (address p))] else [])
     @ (if given (city p) \<and> given (state p)
        then [(''city'', orEmpty (city p)), (''state'', orEmpty (state p))] else [])
     @ (if given (zipCode p) then [(''zipCode'', orEmpty (zipCode p))] else [])"

text \<open>
  What the providers answer: \<^verbatim>\<open>null\<close>, or an object with an \<^verbatim>\<open>error\<close> that may be
  missing; of ATTOM the \<^verbatim>\<open>property\<close> array, of the web search the \<^verbatim>\<open>results\<close> array
  and the \<^verbatim>\<open>answer\<close>. A property, a rental record and a web result are kept as text.
\<close>

datatype attom_result = AttomNull | AttomResult "string option" "string list option"

datatype rentcast_result = RentcastNull | RentcastResult "string option" string

datatype web_result = WebNull | WebResult "string option" "string list option" "string option"

text \<open>A call of a provider, with what it is called with: \<^verbatim>\<open>attomClient.callAttomAPI(endpoint, params)\<close>,
  \<^verbatim>\<open>rentcastClient.getPropertyDetails(fullAddress)\<close>, \<^verbatim>\<open>tavilyClient.searchWeb(searchQuery)\<close>.\<close>

datatype provider_call =
    AttomCall string "(string \<times> string) list"
  | RentCastCall string
  | WebCall string

text \<open>
  The collaborators: the optimizer of the ATTOM parameters
  (\<^verbatim>\<open>queryOptimizer.optimizeAttomPropertyParams\<close>, which catches what its reasoning request
  throws), and the three providers, each of which returns or throws. The first argument
  of a provider is the list of the provider calls made before this one in the search, so
  that what a provider answers may depend on what was called before it.
\<close>

record providers =
  optimizeAttomPropertyParams ::
    "(string \<times> string) list \<Rightarrow> string option \<Rightarrow> string \<Rightarrow> (string \<times> string) list"
  callAttomAPI ::
    "provider_call list \<Rightarrow> string \<Rightarrow> (string \<times> string) list \<Rightarrow> exn + attom_result"
  getPropertyDetails :: "provider_call list \<Rightarrow> string \<Rightarrow> exn + rentcast_result"
  searchWeb :: "provider_call list \<Rightarrow> string \<Rightarrow> exn + web_result"

text \<open>The result, without its response time.\<close>

record search_result =
  success :: bool
  sourceLabel :: "string option"
  found :: "string list"
  answer :: "string option"
  errorText :: "string option"
  messageText :: string

definition generateAttomParameters :: "providers \<Rightarrow> search_params \<Rightarrow> (string \<times> string) list" where
  "generateAttomParameters e p =
     optimizeAttomPropertyParams e (attomParameters p) (query p)
       (''Property search for: '' @ orEmpty (address p) @ '' '' @ orEmpty (city p) @ '' ''
          @ orEmpty (state p) @ '' '' @ orEmpty (zipCode p))"

text \<open>Step 2, the test of what ATTOM answered (a throw is caught): the properties, if the
  call returned an object without an error and with a \<^verbatim>\<open>property\<close> array that is not
  empty.\<close>

definition attomFound :: "exn + attom_result \<Rightarrow> string list option" where
  "attomFound attomResult =
     (case attomResult of
        Inl error \<Rightarrow> None
      | Inr AttomNull \<Rightarrow> None
      | Inr (AttomResult err property) \<Rightarrow>
          (case property of
             None \<Rightarrow> None
           | Some ps \<Rightarrow> if \<not> given err \<and> 0 < length ps then Some ps else None))"

text \<open>Step 3, the test of what RentCast answered: the record, if the call returned an
  object without an error.\<close>

definition rentcastFound :: "exn + rentcast_result \<Rightarrow> string option" where
  "rentcastFound rentcastResult =
     (case rentcastResult of
        Inl error \<Rightarrow> None
      | Inr RentcastNull \<Rightarrow> None
      | Inr (RentcastResult err rentalRecord) \<Rightarrow> if \<not> given err then Some rentalRecord else None)"

text \<open>Step 4, the test of what the web search answered: the results and the answer, if
  the call returned an object without an error and with results; reading
  \<^verbatim>\<open>results.length\<close> of a missing array throws inside the \<^verbatim>\<open>try\<close>.\<close>

definition webFound :: "exn + web_result \<Rightarrow> (string list \<times> string option) option" where
  "webFound webResult =
     (case webResult of
        Inl error \<Rightarrow> None
      | Inr WebNull \<Rightarrow> None
      | Inr (WebResult err results ans) \<Rightarrow>
          (if given err then None
           else case results of
                  None \<Rightarrow> None
                | Some rs \<Rightarrow> if 0 < length rs then Some (rs, ans) else None))"

definition notFoundApology :: string where
  "notFoundApology = ''Sorry, I could not find information about that property. Please try with a more specific address or check if the address is correct.''"

text \<open>Step 4 and the end of the search, after the provider calls \<open>calls\<close>: the web search
  is called, and the search returns what it found or, with nothing found, the apology.\<close>

definition webSearchStep ::
  "providers \<Rightarrow> string \<Rightarrow> search_params \<Rightarrow> provider_call list
     \<Rightarrow> provider_call list \<times> search_result" where
  "webSearchStep e q p calls =
     (let searchQuery = constructWebSearchQuery q p;
          webResult = searchWeb e calls searchQuery
      in (calls @ [WebCall searchQuery],
          case webFound webResult of
            Some (rs, ans) \<Rightarrow>
              \<lparr>success = True, sourceLabel = Some ''Web Search'', found = rs, answer = ans,
               errorText = None,
               messageText = ''Found '' @ show_nat (length rs) @ '' web results about the property.''\<rparr>
          | None \<Rightarrow>
              \<lparr>success = False, sourceLabel = None, found = [], answer = None,
               errorText = Some ''Unable to find property information using any available data source.'',
               messageText = notFoundApology\<rparr>))"

text \<open>The search returns the provider calls it made, in order, and its result or what it
  throws: \<^verbatim>\<open>isResidentialQuery\<close> is called outside any \<^verbatim>\<open>try\<close>, and
  \<^verbatim>\<open>query.toLowerCase()\<close> of a missing query is a TypeError.\<close>

definition executeSmartPropertySearch ::
  "providers \<Rightarrow> search_params \<Rightarrow> provider_call list \<times> (exn + search_result)" where
  "executeSmartPropertySearch e p =
     (let attomSearchParams = generateAttomParameters e p;
          attomResult = callAttomAPI e [] ''/property/snapshot'' attomSearchParams;
          calls = [AttomCall ''/property/snapshot'' attomSearchParams]
      in case attomFound attomResult of
           Some ps \<Rightarrow>
             (calls,
              Inr \<lparr>success = True, sourceLabel = Some ''ATTOM Data (Commercial & Residential)'',
                   found = ps, answer = None, errorText = None,
                   messageText = ''Found '' @ show_nat (length ps) @ '' properties using ATTOM Data.''\<rparr>)
         | None \<Rightarrow>
             (case query p of
                None \<Rightarrow> (calls, Inl TypeError)
              | Some q \<Rightarrow>
                  if isResidentialQuery q then
                    (let fullAddress = constructFullAddress p;
                         rentcastResult = getPropertyDetails e calls fullAddress;
                         calls2 = calls @ [RentCastCall fullAddress]
                     in case rentcastFound rentcastResult of
                          Some rentalRecord \<Rightarrow>
                            (calls2,
                             Inr \<lparr>success = True, sourceLabel = Some ''RentCast (Residential)'',
                                  found = [rentalRecord], answer = None, errorText = None,
                                  messageText = ''Found residential property data using RentCast.''\<rparr>)
                        | None \<Rightarrow> map_prod id Inr (webSearchStep e q p calls2))
                  else map_prod id Inr (webSearchStep e q p calls)))"

section \<open>The inbound webhook and its cache (SMSRoutes.register and memory/cache.js)\<close>

text \<open>
  The cache behind the webhook (memory/cache.js: a node-cache with \<^verbatim>\<open>maxKeys: 10000\<close>),
  as far as the handler uses it, with \<^verbatim>\<open>Date.now()\<close> passed in as \<open>now\<close>, in
  milliseconds. Every value the handler stores is \<^verbatim>\<open>true\<close>, so an entry is its expiry
  time. \<^verbatim>\<open>get\<close> finds a key until its expiry time has passed and drops it then;
  \<^verbatim>\<open>set(key, true, ttl)\<close> throws when the cache holds \<^verbatim>\<open>maxKeys\<close> keys and otherwise
  stores the key for \<open>ttl\<close> seconds; \<^verbatim>\<open>del\<close> drops a key.
\<close>

record cache =
  entries :: "string \<Rightarrow> nat option"
  keyCount :: nat

definition maxKeys :: nat where
  "maxKeys = 10000"

definition cacheGet :: "cache \<Rightarrow> string \<Rightarrow> nat \<Rightarrow> bool \<times> cache" where
  "cacheGet c key now =
     (case entries c key of
        None \<Rightarrow> (False, c)
      | Some expires \<Rightarrow>
          if expires < now
          then (False, c\<lparr>entries := (entries c)(key := None), keyCount := keyCount c - 1\<rparr>)
          else (True, c))"

definition cacheSet :: "cache \<Rightarrow> string \<Rightarrow> nat \<Rightarrow> nat \<Rightarrow> cache option" where
  "cacheSet c key ttl now =
     (if maxKeys \<le> keyCount c then None
      else Some (c\<lparr>entries := (entries c)(key \<mapsto> now + ttl * 1000),
                   keyCount := (if entries c key = None then keyCount c + 1 else keyCount c)\<rparr>))"

definition cacheDel :: "cache \<Rightarrow> string \<Rightarrow> cache" where
  "cacheDel c key =
     (if entries c key = None then c
      else c\<lparr>entries := (entries c)(key := None), keyCount := keyCount c - 1\<rparr>)"

text \<open>
  The inbound webhook (\<^verbatim>\<open>SMSRoutes.register\<close>, the handler of POST /sms). A delivery:
  the fields of the request body, each missing or a string, and whether the Twilio
  signature of the request verifies. What the handler does besides answering: it claims
  the idempotency key, records or clears an opt-out, and hands the message to
  \<^verbatim>\<open>smsProcessor.process\<close> (which makes the reasoning requests, the tool calls and the
  outbound sends).
\<close>

record delivery =
  From :: "string option"
  To :: "string option"
  Body :: "string option"
  MessageSid :: "string option"
  signatureVerifies :: bool

datatype reply =
    Forbidden | MissingFields | EmptyTwiml | UnsubscribedMessage | WelcomeMessage
  | HelpMessage | InternalServerError

datatype effect =
    Claimed string
  | OptedOut string
  | OptedIn string
  | Processing string string string

definition startsWithPlus :: "string \<Rightarrow> bool" where
  "startsWithPlus s = (case s of [] \<Rightarrow> False | c # cs \<Rightarrow> c = CHR ''+'')"

definition normalizeNumber :: "string option \<Rightarrow> string" where
  "normalizeNumber n =
     (if given n \<and> startsWithPlus (orEmpty n) then orEmpty n else ''+'' @ trim (orEmpty n))"

definition idempotencyKeyOf :: "delivery \<Rightarrow> nat \<Rightarrow> string" where
  "idempotencyKeyOf d now =
     ''sms:sid:'' @
       (if given (MessageSid d) then orEmpty (MessageSid d)
        else orEmpty (From d) @ '':'' @ orEmpty (Body d) @ '':'' @ show_nat now)"

text \<open>After the key is claimed: the STOP, START and HELP keywords, the opt-out check,
  and the hand-over to the processor.\<close>

definition afterClaim ::
  "delivery \<Rightarrow> nat \<Rightarrow> effect list \<Rightarrow> cache \<Rightarrow> reply \<times> effect list \<times> cache" where
  "afterClaim d now done c =
     (let fromNumber = normalizeNumber (From d);
          toNumber = normalizeNumber (To d);
          bodyLower = trim (toLowerCase (orEmpty (Body d)))
      in if bodyLower = ''stop'' \<or> bodyLower = ''unsubscribe'' then
           (case cacheSet c (''opt_out:'' @ fromNumber) (86400 * 365) now of
              None \<Rightarrow> (InternalServerError, done, c)
            | Some c' \<Rightarrow> (UnsubscribedMessage, done @ [OptedOut fromNumber], c'))
         else if bodyLower = ''start'' \<or> bodyLower = ''subscribe'' then
           (WelcomeMessage, done @ [OptedIn fromNumber], cacheDel c (''opt_out:'' @ fromNumber))
         else if bodyLower = ''help'' then (HelpMessage, done, c)
         else
           (case cacheGet c (''opt_out:'' @ fromNumber) now of
              (True, c') \<Rightarrow> (EmptyTwiml, done, c')
            | (False, c') \<Rightarrow>
                (EmptyTwiml,
                 done @ [Processing fromNumber toNumber (orEmpty (Body d))], c')))"

definition handleSms ::
  "bool \<Rightarrow> delivery \<Rightarrow> nat \<Rightarrow> cache \<Rightarrow> reply \<times> effect list \<times> cache" where
  "handleSms production d now c =
     (if production \<and> \<not> signatureVerifies d then (Forbidden, [], c)
      else if \<not> given (From d) \<or> \<not> given (Body d) then (MissingFields, [], c)
      else
        (let idempotencyKey = idempotencyKeyOf d now
         in case cacheGet c idempotencyKey now of
              (True, c') \<Rightarrow> (EmptyTwiml, [], c')
            | (False, c') \<Rightarrow>
                (case cacheSet c' idempotencyKey 600 now of
                   None \<Rightarrow> (InternalServerError, [], c')
                 | Some c'' \<Rightarrow> afterClaim d now [Claimed idempotencyKey] c'')))"

section \<open>Example runs\<close>

text \<open>A run that asks for a new tool at every turn: the follow-up request number \<open>k\<close>
  answers with a call of a tool named after \<open>k\<close>, and every tool returns.\<close>

definition greedyEnv :: env where
  "greedyEnv =
     \<lparr>JSON_parse = (\<lambda>a. Parsed [(''query'', a)]),
      patternFallback = (\<lambda>n m. (''query'', m)),
      toolExecutor = (\<lambda>k n a. Inr (ResultObject (Some ''ok'') [])),
      reasoning = (\<lambda>k results disabled.
         Inr \<lparr>output_text = None, output_items = Some [FunctionCall (show_nat k) ''x'']\<rparr>)\<rparr>"

definition firstCall :: response where
  "firstCall = \<lparr>output_text = None, output_items = Some [FunctionCall ''first'' ''x'']\<rparr>"

text \<open>A run where every response asks twice for the same tool, which returns.\<close>

definition repeatEnv :: env where
  "repeatEnv =
     \<lparr>JSON_parse = (\<lambda>a. Parsed [(''query'', a)]),
      patternFallback = (\<lambda>n m. (''query'', m)),
      toolExecutor = (\<lambda>k n a. Inr (ResultObject (Some ''ok'') [])),
      reasoning = (\<lambda>k results disabled.
         Inr \<lparr>output_text = None,
              output_items = Some [FunctionCall ''lookup'' ''x'', FunctionCall ''lookup'' ''x'']\<rparr>)\<rparr>"

definition sameToolTwice :: response where
  "sameToolTwice =
     \<lparr>output_text = None,
      output_items = Some [FunctionCall ''lookup'' ''x'', FunctionCall ''lookup'' ''x'']\<rparr>"

text \<open>A run where the one tool asked for throws every time, asked three times at once.\<close>

definition failingEnv :: env where
  "failingEnv =
     \<lparr>JSON_parse = (\<lambda>a. Parsed [(''query'', a)]),
      patternFallback = (\<lambda>n m. (''query'', m)),
      toolExecutor = (\<lambda>k n a. Inl (Thrown ''timeout'')),
      reasoning = (\<lambda>k results disabled. Inr \<lparr>output_text = Some ''done'', output_items = None\<rparr>)\<rparr>"

definition sameToolThrice :: response where
  "sameToolThrice =
     \<lparr>output_text = None,
      output_items = Some [FunctionCall ''lookup'' ''x'', FunctionCall ''lookup'' ''x'',
                           FunctionCall ''lookup'' ''x'']\<rparr>"

text \<open>A run where the arguments \<^verbatim>\<open>null\<close> parse to \<^verbatim>\<open>null\<close>, every tool returns, and every
  follow-up response asks for the tool \<open>second\<close> with the arguments \<^verbatim>\<open>null\<close>.\<close>

definition nullArgsEnv :: env where
  "nullArgsEnv =
     \<lparr>JSON_parse = (\<lambda>a. if a = ''null'' then ParsedNull else Parsed [(''query'', a)]),
      patternFallback = (\<lambda>n m. (''query'', m)),
      toolExecutor = (\<lambda>k n a. Inr (ResultObject (Some ''ok'') [])),
      reasoning = (\<lambda>k results disabled.
         Inr \<lparr>output_text = None, output_items = Some [FunctionCall ''second'' ''null'']\<rparr>)\<rparr>"

definition nullCall :: response where
  "nullCall = \<lparr>output_text = None, output_items = Some [FunctionCall ''web_search_sms'' ''null'']\<rparr>"

text \<open>A run where the arguments of the call are cut off and do not parse.\<close>

definition brokenJsonEnv :: env where
  "brokenJsonEnv =
     \<lparr>JSON_parse = (\<lambda>a. if a = ''{address: 12 Oak'' then ParseError else Parsed [(''query'', a)]),
      patternFallback = (\<lambda>n m. (''query'', m)),
      toolExecutor = (\<lambda>k n a. Inr (ResultObject (Some ''ok'') [])),
      reasoning = (\<lambda>k results disabled. Inr \<lparr>output_text = Some ''done'', output_items = None\<rparr>)\<rparr>"

definition brokenCall :: response where
  "brokenCall =
     \<lparr>output_text = None,
      output_items = Some [FunctionCall ''smart_property_search_sms'' ''{address: 12 Oak'']\<rparr>"

text \<open>A run of the property specialist: the tool asked for returns an object with an
  \<^verbatim>\<open>error\<close> field and no \<^verbatim>\<open>message\<close>, and the follow-up response has no text.\<close>

definition detailFailure :: tool_result where
  "detailFailure = ResultObject None [(''error'', ''Failed to get property details'')]"

definition silentEnv :: env where
  "silentEnv =
     \<lparr>JSON_parse = (\<lambda>a. Parsed [(''address'', a)]),
      patternFallback = (\<lambda>n m. (''query'', m)),
      toolExecutor = (\<lambda>k n a. Inr detailFailure),
      reasoning = (\<lambda>k results disabled. Inr \<lparr>output_text = None, output_items = Some []\<rparr>)\<rparr>"

definition detailCall :: response where
  "detailCall =
     \<lparr>output_text = None,
      output_items = Some [FunctionCall ''attom_property_detail_sms'' ''123 Main St'']\<rparr>"

text \<open>A response of the router without any text: a blank \<^verbatim>\<open>output_text\<close>, and an
  assistant message with a refusal and a blank \<^verbatim>\<open>output_text\<close> part.\<close>

definition blankResponse :: response where
  "blankResponse =
     \<lparr>output_text = Some '' '',
      output_items = Some [OtherItem,
        Message ''assistant'' (Some [ContentPart ''refusal'' ''no'', ContentPart ''output_text'' '' ''])]\<rparr>"

text \<open>A search where every provider fails, for a query with rental vocabulary.\<close>

definition failingProviders :: providers where
  "failingProviders =
     \<lparr>optimizeAttomPropertyParams = (\<lambda>params q context. params),
      callAttomAPI = (\<lambda>before endpoint params.
         Inr (AttomResult (Some ''ATTOM API failed: Not Found'') None)),
      getPropertyDetails = (\<lambda>before fullAddress. Inl (Thrown ''timeout'')),
      searchWeb = (\<lambda>before q. Inr (WebResult (Some ''Search failed: Bad Gateway'') None None))\<rparr>"

definition rentalSearch :: search_params where
  "rentalSearch =
     \<lparr>query = Some ''Monthly rent for 12 Oak St'', address = Some ''12 Oak St'',
      city = None, state = None, zipCode = None\<rparr>"

text \<open>A search where ATTOM answers with an empty \<^verbatim>\<open>property\<close> array and the web search
  finds two pages, for a query without rental vocabulary.\<close>

definition webOnlyProviders :: providers where
  "webOnlyProviders =
     \<lparr>optimizeAttomPropertyParams = (\<lambda>params q context. params),
      callAttomAPI = (\<lambda>before endpoint params. Inr (AttomResult None (Some []))),
      getPropertyDetails = (\<lambda>before fullAddress. Inr (RentcastResult None ''rental record'')),
      searchWeb = (\<lambda>before q.
         Inr (WebResult None (Some [''page one'', ''page two'']) (Some ''An office tower.'')))\<rparr>"

definition officeSearch :: search_params where
  "officeSearch =
     \<lparr>query = Some ''Office tower'', address = Some ''600 W Chicago Ave'',
      city = Some ''Chicago'', state = Some ''IL'', zipCode = None\<rparr>"

text \<open>A delivery without a \<^verbatim>\<open>MessageSid\<close>, one with it, and a cache with nothing in it.\<close>

definition helloDelivery :: delivery where
  "helloDelivery =
     \<lparr>From = Some ''+15550001111'', To = Some ''+15552223333'', Body = Some ''hello'',
      MessageSid = None, signatureVerifies = True\<rparr>"

definition helloWithSid :: delivery where
  "helloWithSid = helloDelivery\<lparr>MessageSid := Some ''SM0123456789abcdef''\<rparr>"

definition emptyCache :: cache where
  "emptyCache = \<lparr>entries = Map.empty, keyCount = 0\<rparr>"

section \<open>Properties of the outbound chunking\<close>

lemma lastIndexOf_less: "lastIndexOf s c < int (length s)"
  by (induction s) (auto simp: Let_def)

lemma splitPointOf_le: "splitPointOf m r \<le> m"
  using lastIndexOf_less [of "take m r" "CHR '' ''"]
  by (auto simp: splitPointOf_def Let_def)

lemma splitPointOf_pos: "0 < m \<Longrightarrow> r \<noteq> [] \<Longrightarrow> 0 < splitPointOf m r"
  by (auto simp: splitPointOf_def Let_def)

lemma chunkLoop_total: "0 < m \<Longrightarrow> \<exists>cs. chunkLoop m r = Some cs"
proof (induction m r rule: chunkLoop.induct)
  case (1 maxLength remaining)
  show ?case
  proof (cases "remaining = []")
    case True
    then show ?thesis by (simp add: chunkLoop.simps)
  next
    case False
    let ?sp = "splitPointOf maxLength remaining"
    from False "1.prems" have pos: "0 < ?sp" by (rule_tac splitPointOf_pos)
    from False pos "1.IH" [OF _ refl refl refl] "1.prems"
    obtain cs where "chunkLoop maxLength (trim (drop ?sp remaining)) = Some cs" by auto
    with False pos show ?thesis
      by (subst chunkLoop.simps) (simp add: Let_def)
  qed
qed

lemma chunkLoop_bodies:
  "chunkLoop m r = Some cs \<Longrightarrow> c \<in> set cs \<Longrightarrow> length c \<le> m"
proof (induction m r arbitrary: cs rule: chunkLoop.induct)
  case (1 maxLength remaining)
  let ?sp = "splitPointOf maxLength remaining"
  let ?rest = "trim (drop ?sp remaining)"
  show ?case
  proof (cases "remaining = []")
    case True
    with "1.prems" show ?thesis by (simp add: chunkLoop.simps)
  next
    case False
    from "1.prems"(1) False have go: "\<not> (?sp = 0 \<and> ?rest = remaining)"
      by (subst (asm) chunkLoop.simps) (auto simp: Let_def split: if_splits)
    from "1.prems"(1) False go obtain cs' where
      rest: "chunkLoop maxLength ?rest = Some cs'" and cs: "cs = trim (take ?sp remaining) # cs'"
      by (subst (asm) chunkLoop.simps) (auto simp: Let_def split: if_splits)
    show ?thesis
    proof (cases "c \<in> set cs'")
      case True
      from False have "0 < length remaining" by simp
      from "1.IH" [OF this refl refl refl go rest True] show ?thesis .
    next
      case False
      with cs "1.prems"(2) have "c = trim (take ?sp remaining)" by simp
      then have "length c \<le> ?sp" using length_trim_le [of "take ?sp remaining"] by simp
      with splitPointOf_le [of maxLength remaining] show ?thesis by simp
    qed
  qed
qed

lemma filter_dropWhile_neg: "filter (\<lambda>x. \<not> P x) (dropWhile P xs) = filter (\<lambda>x. \<not> P x) xs"
  by (induction xs) auto

lemma filter_trim: "filter (\<lambda>c. \<not> is_ws c) (trim s) = filter (\<lambda>c. \<not> is_ws c) s"
proof -
  have "filter (\<lambda>c. \<not> is_ws c) (trim s)
      = rev (filter (\<lambda>c. \<not> is_ws c) (dropWhile is_ws (rev (dropWhile is_ws s))))"
    unfolding trim_def by (simp add: rev_filter)
  also have "\<dots> = rev (filter (\<lambda>c. \<not> is_ws c) (rev (dropWhile is_ws s)))"
    by (simp only: filter_dropWhile_neg)
  also have "\<dots> = filter (\<lambda>c. \<not> is_ws c) (dropWhile is_ws s)"
    by (simp add: rev_filter)
  also have "\<dots> = filter (\<lambda>c. \<not> is_ws c) s" by (rule filter_dropWhile_neg)
  finally show ?thesis .
qed

lemma stripMarkers_addPartNumbers: "1 < length cs \<Longrightarrow> stripMarkers (addPartNumbers cs) = cs"
proof -
  assume "1 < length cs"
  then have "stripMarkers (addPartNumbers cs)
     = map (\<lambda>(i, c). drop (length (partMarker (i + 1) (length cs))) c)
         (enumerate 0 (map (\<lambda>(i, chunk). partMarker (i + 1) (length cs) @ chunk) (enumerate 0 cs)))"
    by (simp add: stripMarkers_def addPartNumbers_def)
  also have "\<dots> = cs"
    by (rule nth_equalityI) (simp_all add: nth_enumerate_eq)
  finally show ?thesis .
qed

lemma length_addPartNumbers: "length (addPartNumbers cs) = length cs"
  by (simp add: addPartNumbers_def)

lemma show_nat_nonempty: "show_nat n \<noteq> []"
  by (subst show_nat.simps) simp

lemma length_partMarker: "6 \<le> length (partMarker i n)"
proof -
  have "show_nat i \<noteq> []" and "show_nat n \<noteq> []" by (rule show_nat_nonempty)+
  then have "1 \<le> length (show_nat i)" and "1 \<le> length (show_nat n)"
    by (simp_all add: Suc_le_eq)
  then show ?thesis by (simp add: partMarker_def)
qed

lemma lastIndexOf_absent: "c \<notin> set s \<Longrightarrow> lastIndexOf s c = - 1"
  by (induction s) (auto simp: Let_def)

lemma dropWhile_unchanged: "s = [] \<or> \<not> P (hd s) \<Longrightarrow> dropWhile P s = s"
  by (cases s) auto

lemma trim_unchanged:
  assumes "\<forall>c \<in> set s. \<not> is_ws c"
  shows "trim s = s"
proof -
  from assms have "dropWhile is_ws s = s" by (intro dropWhile_unchanged) (cases s, auto)
  moreover from assms have "dropWhile is_ws (rev s) = rev s"
    by (intro dropWhile_unchanged) (cases "rev s", auto)
  ultimately show ?thesis by (simp add: trim_def)
qed

lemma trim_nonempty:
  assumes "\<exists>c \<in> set s. \<not> is_ws c"
  shows "trim s \<noteq> []"
proof
  assume "trim s = []"
  then have "filter (\<lambda>c. \<not> is_ws c) (trim s) = []" by simp
  then have "filter (\<lambda>c. \<not> is_ws c) s = []" by (simp only: filter_trim)
  with assms show False by (auto simp add: filter_empty_conv)
qed

lemma chunkLoop_step:
  assumes "r \<noteq> []" and "0 < m"
  shows "chunkLoop m r
     = map_option ((#) (trim (take (splitPointOf m r) r)))
         (chunkLoop m (trim (drop (splitPointOf m r) r)))"
  using assms splitPointOf_pos [OF assms(2,1)]
  by (subst chunkLoop.simps) (simp add: Let_def)

lemma chunkLoop_nonempty:
  assumes "r \<noteq> []" and "0 < m" and "chunkLoop m r = Some cs"
  shows "cs \<noteq> []"
  using assms(3) unfolding chunkLoop_step [OF assms(1,2)] by auto

lemma trim_split:
  "\<exists>a b. s = a @ trim s @ b \<and> isBlank a \<and> isBlank b"
proof -
  let ?t = "dropWhile is_ws s"
  let ?a = "takeWhile is_ws s"
  let ?b = "rev (takeWhile is_ws (rev ?t))"
  have "rev (takeWhile is_ws (rev ?t) @ dropWhile is_ws (rev ?t)) = rev (rev ?t)"
    by (simp only: takeWhile_dropWhile_id)
  then have "rev (dropWhile is_ws (rev ?t)) @ rev (takeWhile is_ws (rev ?t)) = ?t"
    by (simp only: rev_append rev_rev_ident)
  then have t: "?t = trim s @ ?b" by (simp only: trim_def)
  have "s = ?a @ ?t" by simp
  with t have "s = ?a @ trim s @ ?b" by simp
  moreover have "isBlank ?a"
    by (auto simp add: isBlank_def list_all_iff dest: set_takeWhileD)
  moreover have "isBlank ?b"
    by (auto simp add: isBlank_def list_all_iff dest: set_takeWhileD)
  ultimately show ?thesis by blast
qed

lemma weave_prepend:
  assumes "length gaps = Suc (length cs)" and "list_all isBlank gaps" and "isBlank a"
  shows "\<exists>gaps'. length gaps' = Suc (length cs) \<and> list_all isBlank gaps'
           \<and> weave gaps' cs = a @ weave gaps cs"
proof -
  from assms(1) obtain g gs where gaps: "gaps = g # gs" by (cases gaps) simp_all
  let ?gaps = "(a @ g) # gs"
  have "weave ?gaps cs = a @ weave gaps cs" unfolding gaps by (cases cs) simp_all
  moreover from assms gaps have "length ?gaps = Suc (length cs)" by simp
  moreover from assms(2,3) gaps have "list_all isBlank ?gaps" by (simp add: isBlank_def)
  ultimately show ?thesis by blast
qed

lemma weave_append:
  assumes "length gaps = Suc (length cs)" and "list_all isBlank gaps" and "isBlank b"
  shows "\<exists>gaps'. length gaps' = Suc (length cs) \<and> list_all isBlank gaps'
           \<and> weave gaps' cs = weave gaps cs @ b"
  using assms(1,2)
proof (induction cs arbitrary: gaps)
  case Nil
  then obtain g where gaps: "gaps = [g]" by (cases gaps) simp_all
  with Nil assms(3) have "length [g @ b] = Suc (length ([]::string list))
      \<and> list_all isBlank [g @ b] \<and> weave [g @ b] [] = weave gaps [] @ b"
    by (simp add: isBlank_def)
  then show ?case by blast
next
  case (Cons c cs)
  then obtain g gs where gaps: "gaps = g # gs" by (cases gaps) simp_all
  with Cons.prems have "length gs = Suc (length cs)" and "list_all isBlank gs" by simp_all
  from Cons.IH [OF this] obtain gs' where len: "length gs' = Suc (length cs)"
    and blank: "list_all isBlank gs'" and w: "weave gs' cs = weave gs cs @ b" by blast
  from len blank w gaps Cons.prems
  have "length (g # gs') = Suc (length (c # cs)) \<and> list_all isBlank (g # gs')
      \<and> weave (g # gs') (c # cs) = weave gaps (c # cs) @ b"
    by simp
  then show ?case by blast
qed

lemma chunkLoop_weave:
  "0 < m \<Longrightarrow> chunkLoop m r = Some cs \<Longrightarrow>
   \<exists>gaps. length gaps = Suc (length cs) \<and> list_all isBlank gaps \<and> weave gaps cs = r"
proof (induction m r arbitrary: cs rule: chunkLoop.induct)
  case (1 maxLength remaining)
  let ?sp = "splitPointOf maxLength remaining"
  let ?rest = "trim (drop ?sp remaining)"
  show ?case
  proof (cases "remaining = []")
    case True
    with "1.prems" have "cs = []" by (simp add: chunkLoop.simps)
    with True have "length [[]] = Suc (length cs) \<and> list_all isBlank [[]]
        \<and> weave [[]] cs = remaining"
      by (simp add: isBlank_def)
    then show ?thesis by blast
  next
    case False
    from "1.prems"(2) False have go: "\<not> (?sp = 0 \<and> ?rest = remaining)"
      by (subst (asm) chunkLoop.simps) (auto simp: Let_def split: if_splits)
    from "1.prems"(2) False go obtain cs' where
      rest: "chunkLoop maxLength ?rest = Some cs'" and cs: "cs = trim (take ?sp remaining) # cs'"
      by (subst (asm) chunkLoop.simps) (auto simp: Let_def split: if_splits)
    from False have "0 < length remaining" by simp
    from "1.IH" [OF this refl refl refl go "1.prems"(1) rest]
    obtain gaps where len: "length gaps = Suc (length cs')" and blank: "list_all isBlank gaps"
      and w: "weave gaps cs' = ?rest" by blast
    obtain a1 a2 where headPart: "take ?sp remaining = a1 @ trim (take ?sp remaining) @ a2"
      and a1: "isBlank a1" and a2: "isBlank a2"
      using trim_split [of "take ?sp remaining"] by blast
    obtain b1 b2 where tailPart: "drop ?sp remaining = b1 @ ?rest @ b2"
      and b1: "isBlank b1" and b2: "isBlank b2"
      using trim_split [of "drop ?sp remaining"] by blast
    from a2 b1 have mid: "isBlank (a2 @ b1)" by (simp add: isBlank_def)
    from weave_append [OF len blank b2] obtain gaps1 where
      len1: "length gaps1 = Suc (length cs')" and blank1: "list_all isBlank gaps1"
      and w1: "weave gaps1 cs' = weave gaps cs' @ b2" by blast
    from weave_prepend [OF len1 blank1 mid] obtain gaps2 where
      len2: "length gaps2 = Suc (length cs')" and blank2: "list_all isBlank gaps2"
      and w2: "weave gaps2 cs' = (a2 @ b1) @ weave gaps1 cs'" by blast
    have "remaining = take ?sp remaining @ drop ?sp remaining" by simp
    also have "\<dots> = (a1 @ trim (take ?sp remaining) @ a2) @ (b1 @ ?rest @ b2)"
      using headPart tailPart by simp
    also have "\<dots> = a1 @ trim (take ?sp remaining) @ weave gaps2 cs'"
      by (simp add: w2 w1 w)
    finally have "weave (a1 # gaps2) cs = remaining" by (simp add: cs)
    moreover from len2 cs have "length (a1 # gaps2) = Suc (length cs)" by simp
    moreover from blank2 a1 have "list_all isBlank (a1 # gaps2)" by simp
    ultimately show ?thesis by blast
  qed
qed

text \<open>
  What \<open>chunkMessage\<close> does with the default limit of 300: it always returns. A message
  of at most 300 characters comes back unchanged as the only chunk. Otherwise every
  chunk, read without its marker, has at most 300 characters; when there is more than one
  chunk, each is its text with the marker \<open>(i/n)\<close> and a space put in front; and the
  message is the chunks read without their markers, in order, with a blank string before,
  between and after them (the white space trimmed away around each split).
\<close>

lemma chunkMessage_structure:
  "\<exists>cs. chunkMessage m defaultMaxLength = Some cs
      \<and> (length m \<le> defaultMaxLength \<longrightarrow> cs = [m])
      \<and> (\<forall>b \<in> set (stripMarkers cs). length b \<le> defaultMaxLength)
      \<and> (1 < length cs \<longrightarrow> cs = addPartNumbers (stripMarkers cs))
      \<and> (\<exists>gaps. length gaps = Suc (length cs) \<and> list_all isBlank gaps
             \<and> weave gaps (stripMarkers cs) = m)"
proof (cases "length m \<le> defaultMaxLength")
  case True
  then have run: "chunkMessage m defaultMaxLength = Some [m]" by (simp add: chunkMessage_def)
  have "length [[], []] = Suc (length [m]) \<and> list_all isBlank [[], []]
      \<and> weave [[], []] (stripMarkers [m]) = m"
    by (simp add: isBlank_def stripMarkers_def)
  then have "\<exists>gaps. length gaps = Suc (length [m]) \<and> list_all isBlank gaps
             \<and> weave gaps (stripMarkers [m]) = m" by blast
  with run True show ?thesis by (simp add: stripMarkers_def)
next
  case False
  have pos: "0 < defaultMaxLength" by (simp add: defaultMaxLength_def)
  then obtain bodies where loop: "chunkLoop defaultMaxLength m = Some bodies"
    using chunkLoop_total by blast
  let ?cs = "if 1 < length bodies then addPartNumbers bodies else bodies"
  from False loop have res: "chunkMessage m defaultMaxLength = Some ?cs"
    by (simp add: chunkMessage_def)
  have strip: "stripMarkers ?cs = bodies"
    by (simp add: stripMarkers_addPartNumbers) (simp add: stripMarkers_def)
  have same: "length ?cs = length bodies" by (simp add: length_addPartNumbers)
  have len: "\<forall>b \<in> set bodies. length b \<le> defaultMaxLength"
    using chunkLoop_bodies [OF loop] by blast
  have marked: "1 < length ?cs \<longrightarrow> ?cs = addPartNumbers bodies"
    by (simp add: length_addPartNumbers)
  have woven: "\<exists>gaps. length gaps = Suc (length bodies) \<and> list_all isBlank gaps
             \<and> weave gaps bodies = m"
    using pos loop by (rule chunkLoop_weave)
  show ?thesis
  proof (rule exI [of _ ?cs], intro conjI)
    show "chunkMessage m defaultMaxLength = Some ?cs" by (rule res)
    show "length m \<le> defaultMaxLength \<longrightarrow> ?cs = [m]" using False by blast
    show "\<forall>b \<in> set (stripMarkers ?cs). length b \<le> defaultMaxLength"
      using len by (simp only: strip)
    show "1 < length ?cs \<longrightarrow> ?cs = addPartNumbers (stripMarkers ?cs)"
      using marked by (simp only: strip)
    show "\<exists>gaps. length gaps = Suc (length ?cs) \<and> list_all isBlank gaps
             \<and> weave gaps (stripMarkers ?cs) = m"
      using woven by (simp only: strip same)
  qed
qed

text \<open>
  Claim C2 fails in the code. The limit of 300 is applied to the text of a chunk before
  the marker is put in front of it: for every message of more than 300 characters with
  no white space among its first 300 characters and something other than white space
  after them, \<open>chunkMessage\<close> returns more than one chunk, and the first chunk is its
  marker followed by the first 300 characters of the message, at least 306 characters.
\<close>

theorem chunk_exceeds_limit:
  assumes "defaultMaxLength < length m"
    and "\<forall>c \<in> set (take defaultMaxLength m). \<not> is_ws c"
    and "\<exists>c \<in> set (drop defaultMaxLength m). \<not> is_ws c"
  shows "\<exists>first others. chunkMessage m defaultMaxLength = Some (first # others)
           \<and> others \<noteq> []
           \<and> first = partMarker 1 (length (first # others)) @ take defaultMaxLength m
           \<and> defaultMaxLength + 6 \<le> length first"
proof -
  let ?n = defaultMaxLength
  have pos: "0 < ?n" by (simp add: defaultMaxLength_def)
  from assms(1) have ne: "m \<noteq> []" by auto
  have "is_ws CHR '' ''" by (simp add: is_ws_def)
  with assms(2) have "CHR '' '' \<notin> set (take ?n m)" by auto
  then have "lastIndexOf (take ?n m) CHR '' '' = - 1" by (rule lastIndexOf_absent)
  with assms(1) have sp: "splitPointOf ?n m = ?n" by (simp add: splitPointOf_def Let_def)
  have chunk: "trim (take ?n m) = take ?n m" using assms(2) by (rule trim_unchanged)
  have rest: "trim (drop ?n m) \<noteq> []" using assms(3) by (rule trim_nonempty)
  from chunkLoop_total [OF pos] obtain cs where
    tail: "chunkLoop ?n (trim (drop ?n m)) = Some cs" by blast
  from chunkLoop_nonempty [OF rest pos tail] have cs: "cs \<noteq> []" .
  from chunkLoop_step [OF ne pos] sp chunk tail
  have loop: "chunkLoop ?n m = Some (take ?n m # cs)" by simp
  let ?first = "partMarker 1 (Suc (length cs)) @ take ?n m"
  let ?others = "map (\<lambda>(i, chunk). partMarker (i + 1) (Suc (length cs)) @ chunk) (enumerate 1 cs)"
  from cs have long: "1 < length (take ?n m # cs)" by (cases cs) simp_all
  have marked: "addPartNumbers (take ?n m # cs) = ?first # ?others"
    by (simp add: addPartNumbers_def)
  from assms(1) loop long marked
  have run: "chunkMessage m ?n = Some (?first # ?others)"
    by (simp add: chunkMessage_def del: One_nat_def)
  from cs have others: "?others \<noteq> []" by (cases cs) simp_all
  have len: "length (?first # ?others) = Suc (length cs)" by simp
  have first: "?first = partMarker 1 (length (?first # ?others)) @ take ?n m"
    by (simp only: len)
  from assms(1) have "length (take ?n m) = ?n" by simp
  with length_partMarker [of 1 "Suc (length cs)"] have size: "?n + 6 \<le> length ?first" by simp
  from run others first size show ?thesis by blast
qed

text \<open>
  The message of 300 letters, a space and one more letter: the first chunk sent has 306
  characters, and the chunks without their markers, put end to end, have lost the space.
\<close>

theorem chunk_exceeds_limit_witness:
  "chunkMessage (replicate 300 CHR ''a'' @ '' b'') defaultMaxLength
     = Some [''(1/2) '' @ replicate 300 CHR ''a'', ''(2/2) b'']
   \<and> length (''(1/2) '' @ replicate 300 CHR ''a'') = 306
   \<and> concat (stripMarkers [''(1/2) '' @ replicate 300 CHR ''a'', ''(2/2) b''])
       = replicate 300 CHR ''a'' @ ''b''
   \<and> concat (stripMarkers [''(1/2) '' @ replicate 300 CHR ''a'', ''(2/2) b''])
       \<noteq> replicate 300 CHR ''a'' @ '' b''
   \<and> (\<exists>first others.
         chunkMessage (replicate 300 CHR ''a'' @ '' b'') defaultMaxLength = Some (first # others)
         \<and> others \<noteq> []
         \<and> first = partMarker 1 (length (first # others))
                     @ take defaultMaxLength (replicate 300 CHR ''a'' @ '' b'')
         \<and> defaultMaxLength + 6 \<le> length first)"
proof (intro conjI)
  show "chunkMessage (replicate 300 CHR ''a'' @ '' b'') defaultMaxLength
     = Some [''(1/2) '' @ replicate 300 CHR ''a'', ''(2/2) b'']"
    by code_simp
  show "length (''(1/2) '' @ replicate 300 CHR ''a'') = 306" by simp
  have strip: "stripMarkers [''(1/2) '' @ replicate 300 CHR ''a'', ''(2/2) b'']
      = [replicate 300 CHR ''a'', ''b'']"
    by code_simp
  then show "concat (stripMarkers [''(1/2) '' @ replicate 300 CHR ''a'', ''(2/2) b''])
       = replicate 300 CHR ''a'' @ ''b''"
    by simp
  from strip show "concat (stripMarkers [''(1/2) '' @ replicate 300 CHR ''a'', ''(2/2) b''])
       \<noteq> replicate 300 CHR ''a'' @ '' b''"
    by simp
  have long: "defaultMaxLength < length (replicate 300 CHR ''a'' @ '' b'')"
    by (simp add: defaultMaxLength_def)
  have solid: "\<forall>c \<in> set (take defaultMaxLength (replicate 300 CHR ''a'' @ '' b'')). \<not> is_ws c"
    by (simp add: defaultMaxLength_def is_ws_def)
  have more: "\<exists>c \<in> set (drop defaultMaxLength (replicate 300 CHR ''a'' @ '' b'')). \<not> is_ws c"
    by (simp add: defaultMaxLength_def is_ws_def)
  from long solid more
  show "\<exists>first others.
         chunkMessage (replicate 300 CHR ''a'' @ '' b'') defaultMaxLength = Some (first # others)
         \<and> others \<noteq> []
         \<and> first = partMarker 1 (length (first # others))
                     @ take defaultMaxLength (replicate 300 CHR ''a'' @ '' b'')
         \<and> defaultMaxLength + 6 \<le> length first"
    by (rule chunk_exceeds_limit)
qed

section \<open>Properties of the tool-calling loops\<close>

lemma forEachCall_flow:
  assumes step: "\<And>c s. P s \<Longrightarrow> stepHolds P G (body c s)"
  shows "P s \<Longrightarrow> flowHolds P G (forEachCall body calls s)"
proof (induction calls arbitrary: s)
  case Nil
  then show ?case by simp
next
  case (Cons c calls)
  from step [OF Cons.prems, of c] have ok: "stepHolds P G (body c s)" .
  show ?case
  proof (cases "body c s")
    case (Continue s')
    with ok have "P s'" by simp
    from Cons.IH [OF this] Continue show ?thesis by simp
  qed (use ok in simp_all)
qed

lemma processLoop_flow:
  assumes "\<And>c s. P s \<Longrightarrow> stepHolds P G (callStep e um c s)"
    and "\<And>s. P s \<Longrightarrow> iterations s < maxIterations \<Longrightarrow>
           P (s\<lparr>iterations := iterations s + 1, toolsExecutedThisIteration := False\<rparr>)"
    and "P s"
  shows "flowHolds P G (processLoop e um s)"
  using assms
proof (induction e um s rule: processLoop.induct)
  case (1 e userMessage s)
  note step = "1.prems"(1) and upd = "1.prems"(2) and p = "1.prems"(3)
  show ?case
  proof (cases "iterations s < maxIterations")
    case False
    with p show ?thesis by (simp add: processLoop.simps [of e userMessage s])
  next
    case True
    let ?s1 = "s\<lparr>iterations := iterations s + 1, toolsExecutedThisIteration := False\<rparr>"
    let ?calls = "functionCalls (currentResponse ?s1)"
    have p1: "P ?s1" using p True by (rule upd)
    show ?thesis
    proof (cases "?calls = []")
      case True
      with \<open>iterations s < maxIterations\<close> p1 show ?thesis
        by (simp add: processLoop.simps [of e userMessage s] Let_def)
    next
      case False
      have inner: "flowHolds P G (forEachCall (callStep e userMessage) ?calls ?s1)"
        using step p1 by (rule forEachCall_flow)
      show ?thesis
      proof (cases "forEachCall (callStep e userMessage) ?calls ?s1")
        case (Proceed s2)
        with inner have p2: "P s2" by simp
        show ?thesis
        proof (cases "toolsExecutedThisIteration s2")
          case False
          with True \<open>?calls \<noteq> []\<close> Proceed p2 show ?thesis
            by (simp add: processLoop.simps [of e userMessage s] Let_def)
        next
          case ran: True
          then have "\<not> \<not> toolsExecutedThisIteration s2" by simp
          from "1.IH" [OF True refl refl \<open>?calls \<noteq> []\<close> Proceed this step upd p2]
          have "flowHolds P G (processLoop e userMessage s2)" .
          with True \<open>?calls \<noteq> []\<close> Proceed ran show ?thesis
            by (simp add: processLoop.simps [of e userMessage s] Let_def)
        qed
      next
        case (Return content s2)
        with inner True \<open>?calls \<noteq> []\<close> show ?thesis
          by (simp add: processLoop.simps [of e userMessage s] Let_def)
      next
        case (Throw error s2)
        with inner True \<open>?calls \<noteq> []\<close> show ?thesis
          by (simp add: processLoop.simps [of e userMessage s] Let_def)
      qed
    qed
  qed
qed

lemma handleToolCallsLoop_flow:
  assumes "\<And>c s. P s \<Longrightarrow> stepHolds P G (specialistCallStep cfg e c s)"
    and "\<And>s. P s \<Longrightarrow> iterations s < maxIterations \<Longrightarrow>
           P (s\<lparr>iterations := iterations s + 1, toolsExecutedThisIteration := False\<rparr>)"
    and "P s"
  shows "flowHolds P G (handleToolCallsLoop cfg e s)"
  using assms
proof (induction cfg e s rule: handleToolCallsLoop.induct)
  case (1 cfg e s)
  note step = "1.prems"(1) and upd = "1.prems"(2) and p = "1.prems"(3)
  show ?case
  proof (cases "iterations s < maxIterations")
    case False
    with p show ?thesis by (simp add: handleToolCallsLoop.simps [of cfg e s])
  next
    case True
    let ?s1 = "s\<lparr>iterations := iterations s + 1, toolsExecutedThisIteration := False\<rparr>"
    let ?calls = "functionCalls (currentResponse ?s1)"
    have p1: "P ?s1" using p True by (rule upd)
    show ?thesis
    proof (cases "?calls = []")
      case True
      with \<open>iterations s < maxIterations\<close> p1 show ?thesis
        by (simp add: handleToolCallsLoop.simps [of cfg e s] Let_def)
    next
      case False
      have inner: "flowHolds P G (forEachCall (specialistCallStep cfg e) ?calls ?s1)"
        using step p1 by (rule forEachCall_flow)
      show ?thesis
      proof (cases "forEachCall (specialistCallStep cfg e) ?calls ?s1")
        case (Proceed s2)
        with inner have p2: "P s2" by simp
        show ?thesis
        proof (cases "breaksWhenIdle cfg \<and> \<not> toolsExecutedThisIteration s2")
          case idle: True
          with True \<open>?calls \<noteq> []\<close> Proceed p2 show ?thesis
            by (simp add: handleToolCallsLoop.simps [of cfg e s] Let_def)
        next
          case busy: False
          from "1.IH" [OF True refl refl \<open>?calls \<noteq> []\<close> Proceed busy step upd p2]
          have "flowHolds P G (handleToolCallsLoop cfg e s2)" .
          with True \<open>?calls \<noteq> []\<close> Proceed busy show ?thesis
            by (auto simp add: handleToolCallsLoop.simps [of cfg e s] Let_def)
        qed
      next
        case (Return content s2)
        with inner True \<open>?calls \<noteq> []\<close> show ?thesis
          by (simp add: handleToolCallsLoop.simps [of cfg e s] Let_def)
      next
        case (Throw error s2)
        with inner True \<open>?calls \<noteq> []\<close> show ?thesis
          by (simp add: handleToolCallsLoop.simps [of cfg e s] Let_def)
      qed
    qed
  qed
qed

lemma stepHolds_same: "stepHolds P (\<lambda>content. P) st = P (stateOfStep st)"
  by (cases st) simp_all

lemma flowHolds_same: "flowHolds P (\<lambda>content. P) f = P (stateOf f)"
  by (cases f) simp_all

lemma processLoop_iterations:
  assumes "iterations s \<le> maxIterations"
  shows "iterations (stateOf (processLoop e um s)) \<le> maxIterations"
proof -
  let ?P = "\<lambda>s::loop_state. iterations s \<le> maxIterations"
  have "flowHolds ?P (\<lambda>content. ?P) (processLoop e um s)"
  proof (rule processLoop_flow)
    fix c and s :: loop_state assume "iterations s \<le> maxIterations"
    then show "stepHolds ?P (\<lambda>content. ?P) (callStep e um c s)"
      by (simp only: stepHolds_same callStep_iterations)
  next
    fix s :: loop_state assume "iterations s < maxIterations"
    then show "iterations (s\<lparr>iterations := iterations s + 1, toolsExecutedThisIteration := False\<rparr>)
        \<le> maxIterations" by simp
  next
    show "iterations s \<le> maxIterations" by (rule assms)
  qed
  then show ?thesis by (simp only: flowHolds_same)
qed

lemma handleToolCallsLoop_iterations:
  assumes "iterations s \<le> maxIterations"
  shows "iterations (stateOf (handleToolCallsLoop cfg e s)) \<le> maxIterations"
proof -
  let ?P = "\<lambda>s::loop_state. iterations s \<le> maxIterations"
  have "flowHolds ?P (\<lambda>content. ?P) (handleToolCallsLoop cfg e s)"
  proof (rule handleToolCallsLoop_flow)
    fix c and s :: loop_state assume "iterations s \<le> maxIterations"
    then show "stepHolds ?P (\<lambda>content. ?P) (specialistCallStep cfg e c s)"
      by (simp only: stepHolds_same specialistCallStep_iterations)
  next
    fix s :: loop_state assume "iterations s < maxIterations"
    then show "iterations (s\<lparr>iterations := iterations s + 1, toolsExecutedThisIteration := False\<rparr>)
        \<le> maxIterations" by simp
  next
    show "iterations s \<le> maxIterations" by (rule assms)
  qed
  then show ?thesis by (simp only: flowHolds_same)
qed

lemma callStep_never_returns: "stepHolds (\<lambda>s. True) (\<lambda>content s. False) (callStep e um c s)"
  by (simp add: callStep_def toolReturned_def Let_def split: parsed.split sum.split)

lemma processLoop_never_returns: "processLoop e um s \<noteq> Return content s'"
proof -
  have "flowHolds (\<lambda>s. True) (\<lambda>content s. False) (processLoop e um s)"
    by (rule processLoop_flow) (simp_all add: callStep_never_returns)
  then show ?thesis by (cases "processLoop e um s") simp_all
qed

text \<open>
  Whatever the reasoning responses and the tools do, the tool-calling loop of
  the generic specialist and that of the property specialist end, and they end with at
  most 10 iterations counted. The generic loop ends by going on to the final text, built
  from the last response and the last tool result there is, or by an exception of the
  arguments (a \<^verbatim>\<open>null\<close>); the property loop ends by going on to the final text, by
  returning an apology, or by an exception of \<^verbatim>\<open>JSON.parse\<close>.
\<close>

lemma loops_end_within_bound:
  "(\<exists>s. iterations s \<le> 10 \<and>
        (processLoop e um (initialState r) = Proceed s
           \<and> process e um r = Inr (finalize (currentResponse s) (lastToolResult s))
         \<or> (\<exists>error. processLoop e um (initialState r) = Throw error s
               \<and> process e um r = Inl error)))
   \<and> (\<exists>s. iterations s \<le> 10 \<and>
        (handleToolCallsLoop realEstateAgent e (initialState r) = Proceed s
           \<and> realEstateHandleToolCalls stringify e r
               = Inr (realEstateFinalize stringify (currentResponse s) (lastToolResult s))
         \<or> (\<exists>content. handleToolCallsLoop realEstateAgent e (initialState r) = Return content s
               \<and> realEstateHandleToolCalls stringify e r = Inr content)
         \<or> (\<exists>error. handleToolCallsLoop realEstateAgent e (initialState r) = Throw error s
               \<and> realEstateHandleToolCalls stringify e r = Inl error)))"
proof (rule conjI)
  have start: "iterations (initialState r) \<le> maxIterations"
    by (simp add: initialState_def)
  have bound: "iterations (stateOf (processLoop e um (initialState r))) \<le> 10"
    using processLoop_iterations [OF start, of e um] by (simp add: maxIterations_def)
  show "\<exists>s. iterations s \<le> 10 \<and>
        (processLoop e um (initialState r) = Proceed s
           \<and> process e um r = Inr (finalize (currentResponse s) (lastToolResult s))
         \<or> (\<exists>error. processLoop e um (initialState r) = Throw error s
               \<and> process e um r = Inl error))"
  proof (cases "processLoop e um (initialState r)")
    case (Proceed s)
    with bound show ?thesis by (simp add: process_def)
  next
    case (Return content s)
    with processLoop_never_returns show ?thesis by blast
  next
    case (Throw error s)
    with bound show ?thesis by (simp add: process_def)
  qed
next
  have start: "iterations (initialState r) \<le> maxIterations"
    by (simp add: initialState_def)
  have bound: "iterations (stateOf (handleToolCallsLoop realEstateAgent e (initialState r))) \<le> 10"
    using handleToolCallsLoop_iterations [OF start, of realEstateAgent e]
    by (simp add: maxIterations_def)
  show "\<exists>s. iterations s \<le> 10 \<and>
        (handleToolCallsLoop realEstateAgent e (initialState r) = Proceed s
           \<and> realEstateHandleToolCalls stringify e r
               = Inr (realEstateFinalize stringify (currentResponse s) (lastToolResult s))
         \<or> (\<exists>content. handleToolCallsLoop realEstateAgent e (initialState r) = Return content s
               \<and> realEstateHandleToolCalls stringify e r = Inr content)
         \<or> (\<exists>error. handleToolCallsLoop realEstateAgent e (initialState r) = Throw error s
               \<and> realEstateHandleToolCalls stringify e r = Inl error))"
  proof (cases "handleToolCallsLoop realEstateAgent e (initialState r)")
    case (Proceed s)
    with bound show ?thesis by (simp add: realEstateHandleToolCalls_def)
  next
    case (Return content s)
    with bound show ?thesis by (simp add: realEstateHandleToolCalls_def)
  next
    case (Throw error s)
    with bound show ?thesis by (simp add: realEstateHandleToolCalls_def)
  qed
qed

text \<open>The run that asks for a new tool at every turn is cut after 10 iterations and
  answers from the last tool result.\<close>

lemma greedy_run_is_cut:
  "iterations (stateOf (processLoop greedyEnv ''hi'' (initialState firstCall))) = 10
   \<and> process greedyEnv ''hi'' firstCall = Inr ''ok''
   \<and> (\<exists>s. iterations s \<le> 10 \<and>
        (processLoop greedyEnv ''hi'' (initialState firstCall) = Proceed s
           \<and> process greedyEnv ''hi'' firstCall
               = Inr (finalize (currentResponse s) (lastToolResult s))
         \<or> (\<exists>error. processLoop greedyEnv ''hi'' (initialState firstCall) = Throw error s
               \<and> process greedyEnv ''hi'' firstCall = Inl error)))"
proof (intro conjI)
  show "iterations (stateOf (processLoop greedyEnv ''hi'' (initialState firstCall))) = 10"
    by code_simp
  show "process greedyEnv ''hi'' firstCall = Inr ''ok''"
    by code_simp
  show "\<exists>s. iterations s \<le> 10 \<and>
        (processLoop greedyEnv ''hi'' (initialState firstCall) = Proceed s
           \<and> process greedyEnv ''hi'' firstCall
               = Inr (finalize (currentResponse s) (lastToolResult s))
         \<or> (\<exists>error. processLoop greedyEnv ''hi'' (initialState firstCall) = Throw error s
               \<and> process greedyEnv ''hi'' firstCall = Inl error))"
    using loops_end_within_bound [of greedyEnv "''hi''" firstCall "\<lambda>x. []"] by (rule conjunct1)
qed

lemma first_iteration:
  assumes "functionCalls r = c # rest"
  shows "processLoop e um (initialState r)
     = (case forEachCall (callStep e um) (c # rest)
               ((initialState r)\<lparr>iterations := 1, toolsExecutedThisIteration := False\<rparr>) of
          Proceed s2 \<Rightarrow> if \<not> toolsExecutedThisIteration s2 then Proceed s2
                        else processLoop e um s2
        | Return content s2 \<Rightarrow> Return content s2
        | Throw error s2 \<Rightarrow> Throw error s2)"
  using assms
  by (subst processLoop.simps) (simp add: initialState_def maxIterations_def Let_def)

lemma first_specialist_iteration:
  assumes "functionCalls r = c # rest"
  shows "handleToolCallsLoop cfg e (initialState r)
     = (case forEachCall (specialistCallStep cfg e) (c # rest)
               ((initialState r)\<lparr>iterations := 1, toolsExecutedThisIteration := False\<rparr>) of
          Proceed s2 \<Rightarrow> if breaksWhenIdle cfg \<and> \<not> toolsExecutedThisIteration s2 then Proceed s2
                        else handleToolCallsLoop cfg e s2
        | Return content s2 \<Rightarrow> Return content s2
        | Throw error s2 \<Rightarrow> Throw error s2)"
  using assms
  by (subst handleToolCallsLoop.simps) (simp add: initialState_def maxIterations_def Let_def)

text \<open>
  Claim C3 fails in the code. The loops end within 10 iterations, but not always by
  going on to the final text. In the loop of the generic specialist a call that is not
  skipped and whose arguments parse to \<^verbatim>\<open>null\<close> ends the loop with a TypeError
  (\<^verbatim>\<open>Object.keys(args)\<close> is outside the \<^verbatim>\<open>try\<close> that catches what \<^verbatim>\<open>JSON.parse\<close>
  throws); in the loop of the property and of the business specialist a call that is not
  skipped and whose arguments do not parse ends the loop with a SyntaxError
  (\<^verbatim>\<open>JSON.parse\<close> is outside the \<^verbatim>\<open>try\<close>). So when the first call of the first response has
  such arguments, \<^verbatim>\<open>process\<close> and \<^verbatim>\<open>handleToolCalls\<close> throw and build no final text.
\<close>

theorem malformed_arguments_escape:
  "(name \<notin> set (successfulTools s) \<and> failedCountOf s name < 2
      \<and> JSON_parse e argsString = ParsedNull
     \<longrightarrow> forEachCall (callStep e um) ((name, argsString) # rest) s = Throw TypeError s)
   \<and> (name \<notin> set (successfulTools s) \<and> JSON_parse e argsString = ParseError
     \<longrightarrow> forEachCall (specialistCallStep cfg e) ((name, argsString) # rest) s
          = Throw SyntaxError s)
   \<and> (functionCalls r = (name, argsString) # rest \<and> JSON_parse e argsString = ParsedNull
     \<longrightarrow> process e um r = Inl TypeError)
   \<and> (functionCalls r = (name, argsString) # rest \<and> JSON_parse e argsString = ParseError
     \<longrightarrow> realEstateHandleToolCalls stringify e r = Inl SyntaxError
        \<and> (\<exists>s'. handleToolCallsLoop businessAgent e (initialState r) = Throw SyntaxError s'))"
proof (intro conjI impI)
  assume "name \<notin> set (successfulTools s) \<and> failedCountOf s name < 2
      \<and> JSON_parse e argsString = ParsedNull"
  then show "forEachCall (callStep e um) ((name, argsString) # rest) s = Throw TypeError s"
    by (auto simp add: callStep_def failedCountOf_def Let_def)
next
  assume "name \<notin> set (successfulTools s) \<and> JSON_parse e argsString = ParseError"
  then show "forEachCall (specialistCallStep cfg e) ((name, argsString) # rest) s
          = Throw SyntaxError s"
    by (simp add: specialistCallStep_def Let_def)
next
  assume a: "functionCalls r = (name, argsString) # rest \<and> JSON_parse e argsString = ParsedNull"
  then have "forEachCall (callStep e um) ((name, argsString) # rest)
               ((initialState r)\<lparr>iterations := 1, toolsExecutedThisIteration := False\<rparr>)
      = Throw TypeError ((initialState r)\<lparr>iterations := 1, toolsExecutedThisIteration := False\<rparr>)"
    by (simp add: callStep_def Let_def initialState_def)
  with a first_iteration [of r "(name, argsString)" rest e um]
  show "process e um r = Inl TypeError"
    by (simp add: process_def)
next
  assume a: "functionCalls r = (name, argsString) # rest \<and> JSON_parse e argsString = ParseError"
  have esc: "forEachCall (specialistCallStep cfg e) ((name, argsString) # rest)
               ((initialState r)\<lparr>iterations := 1, toolsExecutedThisIteration := False\<rparr>)
      = Throw SyntaxError ((initialState r)\<lparr>iterations := 1, toolsExecutedThisIteration := False\<rparr>)"
    for cfg
    using a by (simp add: specialistCallStep_def Let_def initialState_def)
  from a esc [of realEstateAgent] first_specialist_iteration [of r "(name, argsString)" rest realEstateAgent e]
  show "realEstateHandleToolCalls stringify e r = Inl SyntaxError"
    by (simp add: realEstateHandleToolCalls_def)
  from a esc [of businessAgent] first_specialist_iteration [of r "(name, argsString)" rest businessAgent e]
  show "\<exists>s'. handleToolCallsLoop businessAgent e (initialState r) = Throw SyntaxError s'"
    by simp
qed

text \<open>
  Arguments \<^verbatim>\<open>null\<close> in the first response end the generic specialist with a TypeError.
  When they come in the second response, the result of the tool that ran before is
  dropped with the exception. Arguments that do not parse end the property and the
  business specialist with a SyntaxError, while the generic specialist counts a failure
  and goes on to its final text.
\<close>

theorem malformed_arguments_escape_witness:
  "process nullArgsEnv ''hi'' nullCall = Inl TypeError
   \<and> process nullArgsEnv ''hi'' firstCall = Inl TypeError
   \<and> (case processLoop nullArgsEnv ''hi'' (initialState firstCall) of
         Throw error s \<Rightarrow> error = TypeError \<and> iterations s = 2
                            \<and> lastToolResult s = ResultObject (Some ''ok'') []
       | Proceed s \<Rightarrow> False
       | Return content s \<Rightarrow> False)
   \<and> realEstateHandleToolCalls (\<lambda>x. []) brokenJsonEnv brokenCall = Inl SyntaxError
   \<and> (\<exists>s'. handleToolCallsLoop businessAgent brokenJsonEnv (initialState brokenCall)
              = Throw SyntaxError s')
   \<and> process brokenJsonEnv ''hi'' brokenCall
       = Inr (''I apologize, but I couldn'' @ [CHR 0x27] @ ''t generate a response. Please try again.'')"
proof (intro conjI)
  have calls: "functionCalls nullCall = (''web_search_sms'', ''null'') # []
      \<and> JSON_parse nullArgsEnv ''null'' = ParsedNull"
    by (simp add: nullCall_def functionCalls_def nullArgsEnv_def)
  from malformed_arguments_escape [where r = nullCall and name = "''web_search_sms''"
      and argsString = "''null''" and rest = "[]" and e = nullArgsEnv and um = "''hi''",
      THEN conjunct2, THEN conjunct2, THEN conjunct1] calls
  show "process nullArgsEnv ''hi'' nullCall = Inl TypeError" by (rule mp)
next
  show "process nullArgsEnv ''hi'' firstCall = Inl TypeError" by code_simp
next
  show "(case processLoop nullArgsEnv ''hi'' (initialState firstCall) of
         Throw error s \<Rightarrow> error = TypeError \<and> iterations s = 2
                            \<and> lastToolResult s = ResultObject (Some ''ok'') []
       | Proceed s \<Rightarrow> False
       | Return content s \<Rightarrow> False)"
    by code_simp
next
  have calls: "functionCalls brokenCall = (''smart_property_search_sms'', ''{address: 12 Oak'') # []
      \<and> JSON_parse brokenJsonEnv ''{address: 12 Oak'' = ParseError"
    by (simp add: brokenCall_def functionCalls_def brokenJsonEnv_def)
  note both = malformed_arguments_escape [where r = brokenCall
      and name = "''smart_property_search_sms''" and argsString = "''{address: 12 Oak''"
      and rest = "[]" and e = brokenJsonEnv and stringify = "\<lambda>x. []",
      THEN conjunct2, THEN conjunct2, THEN conjunct2, THEN mp, OF calls]
  from both show "realEstateHandleToolCalls (\<lambda>x. []) brokenJsonEnv brokenCall = Inl SyntaxError"
    by (rule conjunct1)
  from both show "\<exists>s'. handleToolCallsLoop businessAgent brokenJsonEnv (initialState brokenCall)
              = Throw SyntaxError s'"
    by (rule conjunct2)
next
  show "process brokenJsonEnv ''hi'' brokenCall
       = Inr (''I apologize, but I couldn'' @ [CHR 0x27] @ ''t generate a response. Please try again.'')"
    by code_simp
qed

lemma settled_snoc:
  assumes "settled t" and "\<And>n h. ev = ToolAttempt n h \<Longrightarrow> ToolAttempt n ExecReturned \<notin> set t"
  shows "settled (t @ [ev])"
  unfolding settled_def
proof (intro allI impI)
  fix before name after how
  assume eq: "t @ [ev] = before @ ToolAttempt name ExecReturned # after"
  show "ToolAttempt name how \<notin> set after"
  proof (cases after rule: rev_cases)
    case Nil
    then show ?thesis by simp
  next
    case (snoc after' x)
    with eq have t: "t = before @ ToolAttempt name ExecReturned # after'" and x: "x = ev"
      by simp_all
    from assms(1) t have "ToolAttempt name how \<notin> set after'"
      unfolding settled_def by blast
    moreover have "ToolAttempt name how \<noteq> ev"
    proof
      assume "ToolAttempt name how = ev"
      then have "ToolAttempt name ExecReturned \<notin> set t" using assms(2) by blast
      with t show False by simp
    qed
    ultimately show ?thesis using snoc x by simp
  qed
qed

lemma traceOk_failure:
  "traceOk t done \<Longrightarrow> n \<notin> set done \<Longrightarrow> h \<noteq> ExecReturned \<Longrightarrow> traceOk (t @ [ToolAttempt n h]) done"
  unfolding traceOk_def by (auto intro!: settled_snoc)

lemma traceOk_success:
  "traceOk t done \<Longrightarrow> n \<notin> set done \<Longrightarrow>
   traceOk (t @ [ToolAttempt n ExecReturned]) (List.insert n done)"
  unfolding traceOk_def by (auto intro!: settled_snoc)

lemma traceOk_followUp: "traceOk t done \<Longrightarrow> traceOk (t @ [FollowUp a b]) done"
  unfolding traceOk_def by (auto intro!: settled_snoc)

lemma traceOk_success_followUp:
  assumes "traceOk t done" and "n \<notin> set done"
  shows "traceOk (t @ [ToolAttempt n ExecReturned, FollowUp a b]) (n # done)"
proof -
  from assms have "traceOk (t @ [ToolAttempt n ExecReturned]) (List.insert n done)"
    by (rule traceOk_success)
  then have "traceOk ((t @ [ToolAttempt n ExecReturned]) @ [FollowUp a b]) (List.insert n done)"
    by (rule traceOk_followUp)
  with assms(2) show ?thesis by simp
qed

lemma toolReturned_toolInv:
  "toolInv s \<Longrightarrow> name \<notin> set (successfulTools s) \<Longrightarrow>
   stepHolds toolInv (\<lambda>content. toolInv) (toolReturned e name failedCount toolResult s)"
  by (simp add: toolReturned_def toolInv_def Let_def traceOk_success_followUp split: sum.split)

lemma recordFailure_toolInv:
  "toolInv s \<Longrightarrow> name \<notin> set (successfulTools s) \<Longrightarrow> how \<noteq> ExecReturned \<Longrightarrow>
   toolInv (recordFailure name failedCount how s)"
  by (simp add: recordFailure_def toolInv_def traceOk_failure)

lemma callStep_toolInv:
  "toolInv s \<Longrightarrow> stepHolds toolInv (\<lambda>content. toolInv) (callStep e um c s)"
  by (simp add: callStep_def Let_def toolReturned_toolInv recordFailure_toolInv
      split: parsed.split sum.split)

lemma specialistToolReturned_toolInv:
  "toolInv s \<Longrightarrow> name \<notin> set (successfulTools s) \<Longrightarrow>
   stepHolds toolInv (\<lambda>content. toolInv) (specialistToolReturned cfg e name toolResult s)"
  by (simp add: specialistToolReturned_def toolInv_def Let_def traceOk_success_followUp
      split: sum.split)

lemma specialistExecute_toolInv:
  "toolInv s \<Longrightarrow> name \<notin> set (successfulTools s) \<Longrightarrow>
   stepHolds toolInv (\<lambda>content. toolInv) (specialistExecute cfg e name args s)"
  by (simp add: specialistExecute_def specialistToolReturned_toolInv split: sum.split)
     (simp add: toolInv_def traceOk_failure)

lemma specialistCallStep_toolInv:
  "toolInv s \<Longrightarrow> stepHolds toolInv (\<lambda>content. toolInv) (specialistCallStep cfg e c s)"
  by (simp add: specialistCallStep_def Let_def specialistExecute_toolInv split: parsed.split)

lemma toolInv_initial: "toolInv (initialState r)"
  by (simp add: toolInv_def traceOk_def settled_def initialState_def)

lemma processLoop_toolInv: "toolInv (stateOf (processLoop e um (initialState r)))"
proof -
  have "flowHolds toolInv (\<lambda>content. toolInv) (processLoop e um (initialState r))"
  proof (rule processLoop_flow)
    show "\<And>c s. toolInv s \<Longrightarrow> stepHolds toolInv (\<lambda>content. toolInv) (callStep e um c s)"
      by (rule callStep_toolInv)
    show "\<And>s. toolInv s \<Longrightarrow> iterations s < maxIterations \<Longrightarrow>
        toolInv (s\<lparr>iterations := iterations s + 1, toolsExecutedThisIteration := False\<rparr>)"
      by (simp add: toolInv_def)
    show "toolInv (initialState r)" by (rule toolInv_initial)
  qed
  then show ?thesis by (simp only: flowHolds_same)
qed

lemma handleToolCallsLoop_toolInv: "toolInv (stateOf (handleToolCallsLoop cfg e (initialState r)))"
proof -
  have "flowHolds toolInv (\<lambda>content. toolInv) (handleToolCallsLoop cfg e (initialState r))"
  proof (rule handleToolCallsLoop_flow)
    show "\<And>c s. toolInv s \<Longrightarrow>
        stepHolds toolInv (\<lambda>content. toolInv) (specialistCallStep cfg e c s)"
      by (rule specialistCallStep_toolInv)
    show "\<And>s. toolInv s \<Longrightarrow> iterations s < maxIterations \<Longrightarrow>
        toolInv (s\<lparr>iterations := iterations s + 1, toolsExecutedThisIteration := False\<rparr>)"
      by (simp add: toolInv_def)
    show "toolInv (initialState r)" by (rule toolInv_initial)
  qed
  then show ?thesis by (simp only: flowHolds_same)
qed

text \<open>
  Claim C5. In the events of a loop run of the generic specialist, and of the property or
  business specialist, a tool call that returned is never followed by another call of a
  tool of the same name: once a tool has succeeded, a later request for it is skipped.
\<close>

theorem no_attempt_after_success:
  "(trace (stateOf (processLoop e um (initialState r)))
       = before @ ToolAttempt name ExecReturned # after
     \<longrightarrow> ToolAttempt name how \<notin> set after)
   \<and> (trace (stateOf (handleToolCallsLoop cfg e (initialState r)))
       = before @ ToolAttempt name ExecReturned # after
     \<longrightarrow> ToolAttempt name how \<notin> set after)"
  using processLoop_toolInv [of e um r] handleToolCallsLoop_toolInv [of cfg e r]
  unfolding toolInv_def traceOk_def settled_def by blast

text \<open>When every response asks twice for the tool \<open>lookup\<close>, it runs once.\<close>

theorem no_attempt_after_success_witness:
  "trace (stateOf (processLoop repeatEnv ''hi'' (initialState sameToolTwice)))
     = [] @ ToolAttempt ''lookup'' ExecReturned # [FollowUp False True]
   \<and> trace (stateOf (handleToolCallsLoop realEstateAgent repeatEnv (initialState sameToolTwice)))
     = [] @ ToolAttempt ''lookup'' ExecReturned # [FollowUp False True]
   \<and> ToolAttempt ''lookup'' ExecReturned \<notin> set [FollowUp False True]"
proof -
  have a: "trace (stateOf (processLoop repeatEnv ''hi'' (initialState sameToolTwice)))
     = [] @ ToolAttempt ''lookup'' ExecReturned # [FollowUp False True]"
    by code_simp
  have b: "trace (stateOf (handleToolCallsLoop realEstateAgent repeatEnv (initialState sameToolTwice)))
     = [] @ ToolAttempt ''lookup'' ExecReturned # [FollowUp False True]"
    by code_simp
  from no_attempt_after_success [of repeatEnv "''hi''" sameToolTwice "[]" "''lookup''"
      "[FollowUp False True]" ExecReturned realEstateAgent] a
  have "ToolAttempt ''lookup'' ExecReturned \<notin> set [FollowUp False True]" by blast
  with a b show ?thesis by blast
qed

lemma recordFailure_failInv:
  assumes "failInv s" and "failedCount = failedCountOf s name" and "failedCount < 2"
  shows "failInv (recordFailure name failedCount how s)"
  unfolding failInv_def
proof
  fix n
  from assms(1) have old: "length (filter (isFailureOf n) (trace s)) \<le> failedCountOf s n"
    "failedCountOf s n \<le> 2" unfolding failInv_def by simp_all
  show "length (filter (isFailureOf n) (trace (recordFailure name failedCount how s)))
          \<le> failedCountOf (recordFailure name failedCount how s) n
        \<and> failedCountOf (recordFailure name failedCount how s) n \<le> 2"
  proof (cases "n = name")
    case True
    with old assms(2,3) show ?thesis
      by (simp add: recordFailure_def failedCountOf_def)
  next
    case False
    with old show ?thesis
      by (simp add: recordFailure_def failedCountOf_def)
  qed
qed

lemma toolReturned_failInv:
  assumes "failInv s" and "failedCount = failedCountOf s name" and "failedCount < 2"
  shows "stepHolds failInv (\<lambda>content. failInv) (toolReturned e name failedCount toolResult s)"
proof -
  have "\<And>n. length (filter (isFailureOf n) (trace s)) \<le> failedCountOf s n
           \<and> failedCountOf s n \<le> 2"
    using assms(1) unfolding failInv_def by simp
  then have old: "\<And>n. length (filter (isFailureOf n) (trace s))
               \<le> (case failedAttempts s n of None \<Rightarrow> 0 | Some k \<Rightarrow> k)"
      "\<And>n. (case failedAttempts s n of None \<Rightarrow> 0 | Some k \<Rightarrow> k) \<le> 2"
    unfolding failedCountOf_def by simp_all
  have inc: "\<And>n. length (filter (isFailureOf n) (trace s)) \<le> Suc failedCount \<or> n \<noteq> name"
    using old(1) assms(2) unfolding failedCountOf_def by (metis le_Suc_eq)
  show ?thesis
    using old assms(3) inc
    by (auto simp add: toolReturned_def Let_def failInv_def failedCountOf_def split: sum.split)
qed

lemma callStep_failInv:
  "failInv s \<Longrightarrow> stepHolds failInv (\<lambda>content. failInv) (callStep e um c s)"
  by (simp add: callStep_def Let_def split: parsed.split sum.split)
     (auto simp add: failedCountOf_def [symmetric] not_le intro!: recordFailure_failInv toolReturned_failInv)

lemma failInv_initial: "failInv (initialState r)"
  by (simp add: failInv_def failedCountOf_def initialState_def)

lemma processLoop_failInv: "failInv (stateOf (processLoop e um (initialState r)))"
proof -
  have "flowHolds failInv (\<lambda>content. failInv) (processLoop e um (initialState r))"
  proof (rule processLoop_flow)
    show "\<And>c s. failInv s \<Longrightarrow> stepHolds failInv (\<lambda>content. failInv) (callStep e um c s)"
      by (rule callStep_failInv)
    show "\<And>s. failInv s \<Longrightarrow> iterations s < maxIterations \<Longrightarrow>
        failInv (s\<lparr>iterations := iterations s + 1, toolsExecutedThisIteration := False\<rparr>)"
      by (simp add: failInv_def failedCountOf_def)
    show "failInv (initialState r)" by (rule failInv_initial)
  qed
  then show ?thesis by (simp only: flowHolds_same)
qed

lemma attempts_are_failures:
  "ToolAttempt name ExecReturned \<notin> set t \<Longrightarrow>
   filter (isAttemptOf name) t = filter (isFailureOf name) t"
proof (rule filter_cong [OF refl])
  fix ev assume "ToolAttempt name ExecReturned \<notin> set t" and "ev \<in> set t"
  then show "isAttemptOf name ev = isFailureOf name ev"
    by (cases ev) auto
qed

text \<open>
  Claim C6. In a loop run of the generic specialist, the calls of one tool name that
  failed (the arguments did not parse, they were empty and the fallback found nothing,
  or the tool threw) are at most 2; a tool that never returns is therefore attempted at
  most 2 times. And once the failure count kept for a name is 2 or more, a call of that
  name is skipped: the step leaves the state as it is and goes on to the next call.
\<close>

theorem failure_ceiling:
  "length (filter (isFailureOf name) (trace (stateOf (processLoop e um (initialState r))))) \<le> 2
   \<and> (ToolAttempt name ExecReturned \<notin> set (trace (stateOf (processLoop e um (initialState r))))
        \<longrightarrow> length (filter (isAttemptOf name)
               (trace (stateOf (processLoop e um (initialState r))))) \<le> 2)
   \<and> (2 \<le> failedCountOf s name \<longrightarrow> callStep e um (name, argsString) s = Continue s)"
proof (intro conjI impI)
  let ?t = "trace (stateOf (processLoop e um (initialState r)))"
  from processLoop_failInv [of e um r]
  have "length (filter (isFailureOf name) ?t)
          \<le> failedCountOf (stateOf (processLoop e um (initialState r))) name"
    and "failedCountOf (stateOf (processLoop e um (initialState r))) name \<le> 2"
    unfolding failInv_def by simp_all
  then show bound: "length (filter (isFailureOf name) ?t) \<le> 2" by (rule order_trans)
  show "length (filter (isAttemptOf name) ?t) \<le> 2" if "ToolAttempt name ExecReturned \<notin> set ?t"
    using bound attempts_are_failures [OF that] by simp
  show "callStep e um (name, argsString) s = Continue s" if "2 \<le> failedCountOf s name"
    using that by (simp add: callStep_def failedCountOf_def Let_def)
qed

text \<open>The tool that throws every time is tried twice, and the third call is skipped.\<close>

theorem failure_ceiling_witness:
  "trace (stateOf (processLoop failingEnv ''hi'' (initialState sameToolThrice)))
     = [ToolAttempt ''lookup'' ExecThrew, ToolAttempt ''lookup'' ExecThrew]
   \<and> length (filter (isAttemptOf ''lookup'')
        (trace (stateOf (processLoop failingEnv ''hi'' (initialState sameToolThrice))))) \<le> 2
   \<and> callStep failingEnv ''hi'' (''lookup'', ''x'')
        (stateOf (processLoop failingEnv ''hi'' (initialState sameToolThrice)))
      = Continue (stateOf (processLoop failingEnv ''hi'' (initialState sameToolThrice)))"
proof -
  let ?s = "stateOf (processLoop failingEnv ''hi'' (initialState sameToolThrice))"
  have t: "trace ?s = [ToolAttempt ''lookup'' ExecThrew, ToolAttempt ''lookup'' ExecThrew]"
    by code_simp
  have c: "2 \<le> failedCountOf ?s ''lookup''"
    by code_simp
  have n: "ToolAttempt ''lookup'' ExecReturned \<notin> set (trace ?s)"
    by (simp add: t)
  from failure_ceiling [of "''lookup''" failingEnv "''hi''" sameToolThrice ?s "''x''"] n c t
  show ?thesis by blast
qed








section \<open>Properties of the final text\<close>

lemma finalize_nonempty: "finalize resp lastResult \<noteq> []"
  by (simp add: finalize_def Let_def noResponseApology_def)

lemma realEstateFinalize_nonempty:
  "realEstateFinalize stringify resp lastResult \<noteq> []"
  by (simp add: realEstateFinalize_def Let_def noPropertyResponseApology_def)

lemma finalize_summary:
  "extractFinalText resp = [] \<Longrightarrow>
   finalize resp (ResultObject message others) =
     (case message of
        Some m \<Rightarrow> if m \<noteq> [] \<and> length m < 500 then m else dataFoundMessage
      | None \<Rightarrow> dataFoundMessage)"
  by (simp add: finalize_def summaryOf_def Let_def dataFoundMessage_def split: option.split)

text \<open>
  Claim C1 at the property specialist. The tool returns an object without a
  \<^verbatim>\<open>message\<close> and the last response has no text: the reply of
  \<^verbatim>\<open>RealEstateAgent.handleToolCalls\<close> is a fixed sentence followed by the whole object
  as \<^verbatim>\<open>JSON.stringify\<close> renders it. And a \<^verbatim>\<open>message\<close> of 600 characters is the reply as
  it is. The generic specialist answers both with its fixed "be more specific" message.
\<close>

theorem realEstate_forwards_payload:
  "realEstateHandleToolCalls stringify silentEnv detailCall
     = Inr (propertyDetailsPrefix @ stringify detailFailure)
   \<and> realEstateFinalize stringify \<lparr>output_text = None, output_items = Some []\<rparr>
        (ResultObject (Some (replicate 600 CHR ''a'')) [])
     = replicate 600 CHR ''a''
   \<and> process silentEnv ''123 Main St'' detailCall = Inr dataFoundMessage
   \<and> finalize \<lparr>output_text = None, output_items = Some []\<rparr>
        (ResultObject (Some (replicate 600 CHR ''a'')) [])
     = dataFoundMessage"
proof (intro conjI)
  have loop: "(case handleToolCallsLoop realEstateAgent silentEnv (initialState detailCall) of
       Proceed s \<Rightarrow> currentResponse s = \<lparr>output_text = None, output_items = Some []\<rparr>
                      \<and> lastToolResult s = detailFailure
     | Return content s \<Rightarrow> False
     | Throw error s \<Rightarrow> False)"
    by code_simp
  have none: "extractFinalText \<lparr>output_text = None, output_items = Some []\<rparr> = []"
    by (simp add: extractFinalText_def trim_def)
  have fin: "realEstateFinalize stringify \<lparr>output_text = None, output_items = Some []\<rparr> detailFailure
      = propertyDetailsPrefix @ stringify detailFailure"
    by (simp add: realEstateFinalize_def realEstateSummaryOf_def none detailFailure_def
        propertyDetailsPrefix_def)
  show "realEstateHandleToolCalls stringify silentEnv detailCall
     = Inr (propertyDetailsPrefix @ stringify detailFailure)"
    using loop unfolding realEstateHandleToolCalls_def
    by (simp add: fin split: flow.splits)
  show "realEstateFinalize stringify \<lparr>output_text = None, output_items = Some []\<rparr>
        (ResultObject (Some (replicate 600 CHR ''a'')) [])
     = replicate 600 CHR ''a''"
    by (simp add: realEstateFinalize_def realEstateSummaryOf_def none)
  have bloop: "(case processLoop silentEnv ''123 Main St'' (initialState detailCall) of
       Proceed s \<Rightarrow> currentResponse s = \<lparr>output_text = None, output_items = Some []\<rparr>
                      \<and> lastToolResult s = detailFailure
     | Return content s \<Rightarrow> False
     | Throw error s \<Rightarrow> False)"
    by code_simp
  show "process silentEnv ''123 Main St'' detailCall = Inr dataFoundMessage"
    using bloop unfolding process_def
    by (simp add: finalize_summary [OF none] detailFailure_def split: flow.splits)
  show "finalize \<lparr>output_text = None, output_items = Some []\<rparr>
        (ResultObject (Some (replicate 600 CHR ''a'')) [])
     = dataFoundMessage"
    by (simp add: finalize_summary [OF none])
qed

section \<open>Properties of the routing\<close>

lemma routerProcess_nonempty: "routerProcess r = Inr text \<Longrightarrow> text \<noteq> []"
  by (auto simp add: routerProcess_def Let_def split: sum.splits if_splits option.splits)

lemma firstOutputText_blank:
  "\<forall>part \<in> set ps. \<exists>type text. part = ContentPart type text
       \<and> (type = ''output_text'' \<longrightarrow> trim text = []) \<Longrightarrow>
   firstOutputText ps [] = Inr []"
  by (induction ps) auto

lemma routerScan_blank:
  "\<forall>part \<in> set (assistantParts items). \<exists>type text. part = ContentPart type text
       \<and> (type = ''output_text'' \<longrightarrow> trim text = []) \<Longrightarrow>
   routerScan items [] = Inr []"
proof (induction items)
  case Nil
  then show ?case by simp
next
  case (Cons item items)
  show ?case
  proof (cases item)
    case (FunctionCall name argsString)
    with Cons show ?thesis by simp
  next
    case OtherItem
    with Cons show ?thesis by simp
  next
    case (Message role content)
    show ?thesis
    proof (cases content)
      case None
      with Message Cons show ?thesis by simp
    next
      case (Some ps)
      show ?thesis
      proof (cases "role = ''assistant''")
        case False
        with Some Message Cons show ?thesis by simp
      next
        case True
        with Some Message Cons.prems
        have "\<forall>part \<in> set ps. \<exists>type text. part = ContentPart type text
                 \<and> (type = ''output_text'' \<longrightarrow> trim text = [])"
          by simp
        then have "firstOutputText ps [] = Inr []" by (rule firstOutputText_blank)
        moreover from True Some Message Cons.prems
        have "routerScan items [] = Inr []" by (intro Cons.IH) simp
        ultimately show ?thesis using True Some Message by simp
      qed
    qed
  qed
qed

lemma firstOutputText_throws:
  "firstOutputText ps finalText = Inl error \<Longrightarrow> error = TypeError \<and> NullPart \<in> set ps"
  by (induction ps finalText rule: firstOutputText.induct) (auto split: if_splits)

lemma routerScan_throws:
  "routerScan items finalText = Inl error \<Longrightarrow>
   error = TypeError \<and> NullPart \<in> set (assistantParts items)"
proof (induction items arbitrary: finalText)
  case Nil
  then show ?case by simp
next
  case (Cons item items)
  have skip: "error = TypeError \<and> NullPart \<in> set (assistantParts items)"
    if "(if finalText \<noteq> [] then Inr finalText else routerScan items finalText) = Inl error"
  proof -
    from that have "routerScan items finalText = Inl error" by (auto split: if_splits)
    then show ?thesis by (rule Cons.IH)
  qed
  show ?case
  proof (cases item)
    case (FunctionCall name argsString)
    with Cons.prems skip show ?thesis by simp
  next
    case OtherItem
    with Cons.prems skip show ?thesis by simp
  next
    case (Message role content)
    show ?thesis
    proof (cases content)
      case None
      with Message Cons.prems skip show ?thesis by simp
    next
      case (Some ps)
      show ?thesis
      proof (cases "role = ''assistant''")
        case False
        with Some Message Cons.prems skip show ?thesis by simp
      next
        case True
        show ?thesis
        proof (cases "firstOutputText ps finalText")
          case (Inl err)
          with True Some Message Cons.prems have "err = error" by simp
          with Inl firstOutputText_throws [of ps finalText error] True Some Message
          show ?thesis by simp
        next
          case (Inr found)
          with True Some Message Cons.prems have "routerScan items found = Inl error"
            by (auto split: if_splits)
          from Cons.IH [OF this] True Some Message show ?thesis by simp
        qed
      qed
    qed
  qed
qed

lemma routerProcess_blank:
  assumes "trim (orEmpty (output_text r)) = []"
    and "\<forall>items. output_items r = Some items \<longrightarrow>
           (\<forall>part \<in> set (assistantParts items). \<exists>type text. part = ContentPart type text
               \<and> (type = ''output_text'' \<longrightarrow> trim text = []))"
  shows "routerProcess r = Inr ''GENERAL_AGENT''"
proof (cases "output_items r")
  case None
  with assms(1) show ?thesis by (simp add: routerProcess_def orEmpty_def Let_def)
next
  case (Some items)
  with assms(2) have "routerScan items [] = Inr []" by (intro routerScan_blank) simp
  with Some assms(1) show ?thesis by (simp add: routerProcess_def orEmpty_def Let_def)
qed

lemma routerProcess_throws:
  assumes "routerProcess r = Inl error"
  shows "error = TypeError \<and> trim (orEmpty (output_text r)) = []
         \<and> (\<exists>items. output_items r = Some items \<and> NullPart \<in> set (assistantParts items))"
proof -
  from assms have blank: "trim (orEmpty (output_text r)) = []"
    by (auto simp add: routerProcess_def orEmpty_def Let_def split: if_splits)
  with assms obtain items where items: "output_items r = Some items"
    and scan: "routerScan items [] = Inl error"
    by (cases "output_items r")
       (auto simp add: routerProcess_def orEmpty_def Let_def split: sum.splits)
  from routerScan_throws [OF scan] items blank show ?thesis by simp
qed

lemma selectAgent_Business:
  "selectAgent raw = Business
     \<longleftrightarrow> trim raw \<in> {''BUSINESS_AGENT'', ''business_agent'', ''business''}"
  by (auto simp add: selectAgent_def agentMap_def Let_def split: if_splits)

lemma selectAgent_RealEstate:
  "selectAgent raw = RealEstate
     \<longleftrightarrow> trim raw \<in> {''REAL_ESTATE_AGENT'', ''real_estate_agent'', ''real_estate''}"
  by (auto simp add: selectAgent_def agentMap_def Let_def split: if_splits)

text \<open>
  Claim C7, as the code has it. The text of the classifier is trimmed and then looked up
  as it is, with no change of case: exactly the three spellings \<^verbatim>\<open>BUSINESS_AGENT\<close>,
  \<^verbatim>\<open>business_agent\<close>, \<^verbatim>\<open>business\<close> select the business specialist, exactly the three
  spellings \<^verbatim>\<open>REAL_ESTATE_AGENT\<close>, \<^verbatim>\<open>real_estate_agent\<close>, \<^verbatim>\<open>real_estate\<close> select the
  property specialist, and every other text (the empty one too) selects the general
  specialist; the choice never fails. The router never answers with an empty text: when
  the response holds no text (a blank \<^verbatim>\<open>output_text\<close>, and in the assistant messages no
  part that is \<^verbatim>\<open>null\<close> and no \<^verbatim>\<open>output_text\<close> part that is not blank) it answers
  \<^verbatim>\<open>GENERAL_AGENT\<close>, and the message goes to the general specialist. Whenever the router
  answers, the message is handed to the specialist chosen from its answer. The routing
  stops the processing exactly when the router throws, that is when its reasoning request
  throws or when the reading of the response throws; the latter is a TypeError, for a
  response with a blank \<^verbatim>\<open>output_text\<close> and a \<^verbatim>\<open>null\<close> part in an assistant message. Then
  no specialist runs and the error message is sent.
\<close>

theorem routing_default:
  "(trim a = trim b \<longrightarrow> selectAgent a = selectAgent b)
   \<and> (selectAgent raw = Business
        \<longleftrightarrow> trim raw \<in> {''BUSINESS_AGENT'', ''business_agent'', ''business''})
   \<and> (selectAgent raw = RealEstate
        \<longleftrightarrow> trim raw \<in> {''REAL_ESTATE_AGENT'', ''real_estate_agent'', ''real_estate''})
   \<and> (selectAgent raw = General
        \<longleftrightarrow> trim raw \<notin> {''BUSINESS_AGENT'', ''business_agent'', ''business'',
                          ''REAL_ESTATE_AGENT'', ''real_estate_agent'', ''real_estate''})
   \<and> selectAgent [] = General
   \<and> (routerProcess r = Inr text \<longrightarrow> text \<noteq> [])
   \<and> (trim (orEmpty (output_text r)) = []
        \<and> (\<forall>items. output_items r = Some items \<longrightarrow>
             (\<forall>part \<in> set (assistantParts items). \<exists>type text. part = ContentPart type text
                 \<and> (type = ''output_text'' \<longrightarrow> trim text = [])))
      \<longrightarrow> routerProcess r = Inr ''GENERAL_AGENT'' \<and> routeMessage (Inr r) = HandedTo General)
   \<and> (routerAgentProcess request = Inr content
      \<longrightarrow> routeMessage request = HandedTo (selectAgent content))
   \<and> (routeMessage request = ErrorMessageSent processingErrorMessage
      \<longleftrightarrow> (\<exists>error. request = Inl error)
          \<or> (\<exists>response error. request = Inr response \<and> routerProcess response = Inl error))
   \<and> (routerProcess r = Inl error
      \<longrightarrow> error = TypeError \<and> trim (orEmpty (output_text r)) = []
          \<and> (\<exists>items. output_items r = Some items \<and> NullPart \<in> set (assistantParts items)))"
proof (intro conjI impI)
  show "selectAgent a = selectAgent b" if "trim a = trim b"
    using that by (simp add: selectAgent_def)
  show "selectAgent raw = Business
        \<longleftrightarrow> trim raw \<in> {''BUSINESS_AGENT'', ''business_agent'', ''business''}"
    by (rule selectAgent_Business)
  show "selectAgent raw = RealEstate
        \<longleftrightarrow> trim raw \<in> {''REAL_ESTATE_AGENT'', ''real_estate_agent'', ''real_estate''}"
    by (rule selectAgent_RealEstate)
  show "selectAgent raw = General
        \<longleftrightarrow> trim raw \<notin> {''BUSINESS_AGENT'', ''business_agent'', ''business'',
                          ''REAL_ESTATE_AGENT'', ''real_estate_agent'', ''real_estate''}"
    using selectAgent_Business [of raw] selectAgent_RealEstate [of raw]
    by (cases "selectAgent raw") simp_all
  show "selectAgent [] = General"
    by (simp add: selectAgent_def agentMap_def trim_def)
  show "text \<noteq> []" if "routerProcess r = Inr text"
    using that by (rule routerProcess_nonempty)
next
  assume blank: "trim (orEmpty (output_text r)) = []
        \<and> (\<forall>items. output_items r = Some items \<longrightarrow>
             (\<forall>part \<in> set (assistantParts items). \<exists>type text. part = ContentPart type text
                 \<and> (type = ''output_text'' \<longrightarrow> trim text = [])))"
  then show general: "routerProcess r = Inr ''GENERAL_AGENT''"
    by (intro routerProcess_blank) simp_all
  have "selectAgent ''GENERAL_AGENT'' = General" by code_simp
  with general show "routeMessage (Inr r) = HandedTo General"
    by (simp add: routeMessage_def routerAgentProcess_def)
next
  show "routeMessage request = HandedTo (selectAgent content)"
    if "routerAgentProcess request = Inr content"
    using that by (simp add: routeMessage_def)
  show "routeMessage request = ErrorMessageSent processingErrorMessage
      \<longleftrightarrow> (\<exists>error. request = Inl error)
          \<or> (\<exists>response error. request = Inr response \<and> routerProcess response = Inl error)"
    by (cases request)
       (auto simp add: routeMessage_def routerAgentProcess_def split: sum.splits)
  show "error = TypeError" if "routerProcess r = Inl error"
    using routerProcess_throws [OF that] by simp
  show "trim (orEmpty (output_text r)) = []" if "routerProcess r = Inl error"
    using routerProcess_throws [OF that] by simp
  show "\<exists>items. output_items r = Some items \<and> NullPart \<in> set (assistantParts items)"
    if "routerProcess r = Inl error"
    using routerProcess_throws [OF that] by simp
qed

text \<open>The theorem at a classifier text with spaces around the upper-case name, at a short
  name, at a name in mixed case, at a response without any text, and at a reasoning
  request that throws.\<close>

theorem routing_default_witness:
  "selectAgent '' BUSINESS_AGENT  '' = Business
   \<and> selectAgent ''real_estate'' = RealEstate
   \<and> selectAgent ''Business_Agent'' = General
   \<and> routerProcess blankResponse = Inr ''GENERAL_AGENT''
   \<and> routeMessage (Inr blankResponse) = HandedTo General
   \<and> routeMessage (Inl (Thrown ''Request timed out.'')) = ErrorMessageSent processingErrorMessage
   \<and> routeMessage (Inr \<lparr>output_text = Some ''Business_Agent'', output_items = None\<rparr>)
       = HandedTo General"
proof -
  have t1: "trim '' BUSINESS_AGENT  '' = ''BUSINESS_AGENT''" by code_simp
  have t2: "trim ''real_estate'' = ''real_estate''" by code_simp
  have t3: "trim ''Business_Agent'' = ''Business_Agent''" by code_simp
  have t4: "trim '' '' = []" by code_simp
  have a: "selectAgent '' BUSINESS_AGENT  '' = Business"
    using routing_default [where raw = "'' BUSINESS_AGENT  ''", THEN conjunct2, THEN conjunct1]
    by (simp add: t1)
  have b: "selectAgent ''real_estate'' = RealEstate"
    using routing_default [where raw = "''real_estate''", THEN conjunct2, THEN conjunct2,
        THEN conjunct1]
    by (simp add: t2)
  have c: "selectAgent ''Business_Agent'' = General"
    using routing_default [where raw = "''Business_Agent''", THEN conjunct2, THEN conjunct2,
        THEN conjunct2, THEN conjunct1]
    by (simp add: t3)
  have blank: "trim (orEmpty (output_text blankResponse)) = []
        \<and> (\<forall>items. output_items blankResponse = Some items \<longrightarrow>
             (\<forall>part \<in> set (assistantParts items). \<exists>type text. part = ContentPart type text
                 \<and> (type = ''output_text'' \<longrightarrow> trim text = [])))"
    by (simp add: blankResponse_def orEmpty_def t4)
  have d: "routerProcess blankResponse = Inr ''GENERAL_AGENT''
      \<and> routeMessage (Inr blankResponse) = HandedTo General"
    using routing_default [where r = blankResponse, THEN conjunct2, THEN conjunct2,
        THEN conjunct2, THEN conjunct2, THEN conjunct2, THEN conjunct2, THEN conjunct1] blank
    by (rule mp)
  have e: "routeMessage (Inl (Thrown ''Request timed out.'')) = ErrorMessageSent processingErrorMessage"
    using routing_default [where request = "Inl (Thrown ''Request timed out.'')",
        THEN conjunct2, THEN conjunct2, THEN conjunct2, THEN conjunct2, THEN conjunct2,
        THEN conjunct2, THEN conjunct2, THEN conjunct2, THEN conjunct1]
    by simp
  have r: "routerAgentProcess (Inr \<lparr>output_text = Some ''Business_Agent'', output_items = None\<rparr>)
      = Inr ''Business_Agent''" by code_simp
  have f: "routeMessage (Inr \<lparr>output_text = Some ''Business_Agent'', output_items = None\<rparr>)
       = HandedTo (selectAgent ''Business_Agent'')"
    using routing_default [where content = "''Business_Agent''"
        and request = "Inr \<lparr>output_text = Some ''Business_Agent'', output_items = None\<rparr>",
        THEN conjunct2, THEN conjunct2, THEN conjunct2, THEN conjunct2, THEN conjunct2,
        THEN conjunct2, THEN conjunct2, THEN conjunct1] r
    by (rule mp)
  from a b c d e f show ?thesis by (simp only: simp_thms)
qed

text \<open>
  Claim C7 as the specification states it fails at the classifier text
  \<^verbatim>\<open>Business_Agent\<close>: trimmed and case-normalised it is the business specialist's name,
  and the code selects the general specialist. And it fails when the reasoning request
  of the router throws, or when the response has a \<^verbatim>\<open>null\<close> part in an assistant message:
  no specialist is chosen, and the error message is sent instead of an answer.
\<close>

theorem routing_case_counterexample:
  "selectAgentAsSpecified ''Business_Agent'' = Business
   \<and> selectAgent ''Business_Agent'' = General
   \<and> routeMessage (Inl (Thrown ''Request timed out.'')) = ErrorMessageSent processingErrorMessage
   \<and> routeMessage
        (Inr \<lparr>output_text = None,
              output_items = Some [Message ''assistant'' (Some [NullPart])]\<rparr>)
       = ErrorMessageSent processingErrorMessage"
  by code_simp

section \<open>Properties of the property search\<close>

lemma attomFound_Some:
  "attomFound a = Some ps \<longleftrightarrow>
   (\<exists>err. a = Inr (AttomResult err (Some ps)) \<and> \<not> given err \<and> ps \<noteq> [])"
  by (auto simp add: attomFound_def split: sum.splits attom_result.splits option.splits
        if_splits)

lemma attomFound_None:
  "attomFound a = None \<longleftrightarrow>
   \<not> (\<exists>err ps. a = Inr (AttomResult err (Some ps)) \<and> \<not> given err \<and> ps \<noteq> [])"
  by (auto simp add: attomFound_def split: sum.splits attom_result.splits option.splits
        if_splits)

lemma rentcastFound_Some:
  "rentcastFound a = Some rentalRecord \<longleftrightarrow>
   (\<exists>err. a = Inr (RentcastResult err rentalRecord) \<and> \<not> given err)"
  by (auto simp add: rentcastFound_def split: sum.splits rentcast_result.splits if_splits)

lemma rentcastFound_None:
  "rentcastFound a = None \<longleftrightarrow>
   \<not> (\<exists>err rentalRecord. a = Inr (RentcastResult err rentalRecord) \<and> \<not> given err)"
  by (auto simp add: rentcastFound_def split: sum.splits rentcast_result.splits if_splits)

lemma webFound_Some:
  "webFound a = Some (rs, ans) \<longleftrightarrow>
   (\<exists>err. a = Inr (WebResult err (Some rs) ans) \<and> \<not> given err \<and> rs \<noteq> [])"
  by (auto simp add: webFound_def split: sum.splits web_result.splits option.splits if_splits)

lemma webFound_None:
  "webFound a = None \<longleftrightarrow>
   \<not> (\<exists>err rs ans. a = Inr (WebResult err (Some rs) ans) \<and> \<not> given err \<and> rs \<noteq> [])"
  by (auto simp add: webFound_def split: sum.splits web_result.splits option.splits if_splits)

lemma search_without_query:
  "attomFound (callAttomAPI e [] ''/property/snapshot'' (generateAttomParameters e p)) = None \<Longrightarrow>
   query p = None \<Longrightarrow>
   executeSmartPropertySearch e p
     = ([AttomCall ''/property/snapshot'' (generateAttomParameters e p)], Inl TypeError)"
  by (simp add: executeSmartPropertySearch_def Let_def)

text \<open>
  Claim C8. For a search with a query, the search returns a result and never throws, and
  its message is never empty. ATTOM is called first, before any other provider, on the
  endpoint \<^verbatim>\<open>/property/snapshot\<close> with the optimized parameters; when it answers with an
  object without an error and with a \<^verbatim>\<open>property\<close> array that is not empty, no other
  provider is called and the search succeeds with these properties. Otherwise (ATTOM
  threw, answered \<^verbatim>\<open>null\<close>, an error, or no property), and only when the query holds a word
  of the residential vocabulary, RentCast is called next with the full address; when it
  answers with an object without an error, the search succeeds with this record. Otherwise
  the web search is called last, with the query built from the query and the location;
  when it answers with an object without an error and with results, the search succeeds
  with them; and when it does not, the result has \<^verbatim>\<open>success: false\<close> and the apology as
  its message.
\<close>

theorem multi_provider_search:
  assumes "query p = Some q"
  shows
  "let attomCall = AttomCall ''/property/snapshot'' (generateAttomParameters e p);
       rentcastCall = RentCastCall (constructFullAddress p);
       webCall = WebCall (constructWebSearchQuery q p);
       beforeWeb = (if isResidentialQuery q then [attomCall, rentcastCall] else [attomCall]);
       attomResult = callAttomAPI e [] ''/property/snapshot'' (generateAttomParameters e p);
       rentcastResult = getPropertyDetails e [attomCall] (constructFullAddress p);
       webResult = searchWeb e beforeWeb (constructWebSearchQuery q p);
       attomFailed = (\<not> (\<exists>err ps. attomResult = Inr (AttomResult err (Some ps))
                                 \<and> \<not> given err \<and> ps \<noteq> []));
       rentcastFailed = (\<not> (\<exists>err rentalRecord.
                              rentcastResult = Inr (RentcastResult err rentalRecord)
                              \<and> \<not> given err));
       webFailed = (\<not> (\<exists>err rs ans. webResult = Inr (WebResult err (Some rs) ans)
                               \<and> \<not> given err \<and> rs \<noteq> []))
   in (\<exists>calls result. executeSmartPropertySearch e p = (attomCall # calls, Inr result)
          \<and> messageText result \<noteq> [])
      \<and> (\<forall>err ps. attomResult = Inr (AttomResult err (Some ps)) \<and> \<not> given err \<and> ps \<noteq> []
            \<longrightarrow> executeSmartPropertySearch e p
                = ([attomCall],
                   Inr \<lparr>success = True,
                        sourceLabel = Some ''ATTOM Data (Commercial & Residential)'',
                        found = ps, answer = None, errorText = None,
                        messageText = ''Found '' @ show_nat (length ps)
                                        @ '' properties using ATTOM Data.''\<rparr>))
      \<and> (\<forall>err rentalRecord.
            attomFailed \<and> isResidentialQuery q
            \<and> rentcastResult = Inr (RentcastResult err rentalRecord) \<and> \<not> given err
            \<longrightarrow> executeSmartPropertySearch e p
                = ([attomCall, rentcastCall],
                   Inr \<lparr>success = True, sourceLabel = Some ''RentCast (Residential)'',
                        found = [rentalRecord], answer = None, errorText = None,
                        messageText = ''Found residential property data using RentCast.''\<rparr>))
      \<and> (\<forall>err rs ans.
            attomFailed \<and> (isResidentialQuery q \<longrightarrow> rentcastFailed)
            \<and> webResult = Inr (WebResult err (Some rs) ans) \<and> \<not> given err \<and> rs \<noteq> []
            \<longrightarrow> executeSmartPropertySearch e p
                = (beforeWeb @ [webCall],
                   Inr \<lparr>success = True, sourceLabel = Some ''Web Search'', found = rs,
                        answer = ans, errorText = None,
                        messageText = ''Found '' @ show_nat (length rs)
                                        @ '' web results about the property.''\<rparr>))
      \<and> (attomFailed \<and> (isResidentialQuery q \<longrightarrow> rentcastFailed) \<and> webFailed
            \<longrightarrow> executeSmartPropertySearch e p
                = (beforeWeb @ [webCall],
                   Inr \<lparr>success = False, sourceLabel = None, found = [], answer = None,
                        errorText = Some ''Unable to find property information using any available data source.'',
                        messageText = notFoundApology\<rparr>)
              \<and> notFoundApology \<noteq> [])"
proof -
  let ?attomCall = "AttomCall ''/property/snapshot'' (generateAttomParameters e p)"
  let ?rentcastCall = "RentCastCall (constructFullAddress p)"
  let ?webCall = "WebCall (constructWebSearchQuery q p)"
  let ?beforeWeb = "if isResidentialQuery q then [?attomCall, ?rentcastCall] else [?attomCall]"
  let ?A = "callAttomAPI e [] ''/property/snapshot'' (generateAttomParameters e p)"
  let ?R = "getPropertyDetails e [?attomCall] (constructFullAddress p)"
  let ?W = "searchWeb e ?beforeWeb (constructWebSearchQuery q p)"
  let ?run = "executeSmartPropertySearch e p"
  have attomHit: "?run = ([?attomCall],
                   Inr \<lparr>success = True,
                        sourceLabel = Some ''ATTOM Data (Commercial & Residential)'',
                        found = ps, answer = None, errorText = None,
                        messageText = ''Found '' @ show_nat (length ps)
                                        @ '' properties using ATTOM Data.''\<rparr>)"
    if "attomFound ?A = Some ps" for ps
    using that by (simp add: executeSmartPropertySearch_def Let_def)
  have rentcastHit: "?run = ([?attomCall, ?rentcastCall],
                   Inr \<lparr>success = True, sourceLabel = Some ''RentCast (Residential)'',
                        found = [rentalRecord], answer = None, errorText = None,
                        messageText = ''Found residential property data using RentCast.''\<rparr>)"
    if "attomFound ?A = None" and "isResidentialQuery q"
      and "rentcastFound ?R = Some rentalRecord" for rentalRecord
    using that assms by (simp add: executeSmartPropertySearch_def Let_def)
  have toWeb: "?run = map_prod id Inr (webSearchStep e q p ?beforeWeb)"
    if "attomFound ?A = None" and "isResidentialQuery q \<longrightarrow> rentcastFound ?R = None"
    using that assms by (simp add: executeSmartPropertySearch_def Let_def)
  have webHit: "webSearchStep e q p ?beforeWeb
      = (?beforeWeb @ [?webCall],
         \<lparr>success = True, sourceLabel = Some ''Web Search'', found = rs,
          answer = ans, errorText = None,
          messageText = ''Found '' @ show_nat (length rs)
                          @ '' web results about the property.''\<rparr>)"
    if "webFound ?W = Some (rs, ans)" for rs ans
    using that by (simp add: webSearchStep_def Let_def)
  have webMiss: "webSearchStep e q p ?beforeWeb
      = (?beforeWeb @ [?webCall],
         \<lparr>success = False, sourceLabel = None, found = [], answer = None,
          errorText = Some ''Unable to find property information using any available data source.'',
          messageText = notFoundApology\<rparr>)"
    if "webFound ?W = None"
    using that by (simp add: webSearchStep_def Let_def)
  have apology: "notFoundApology \<noteq> []" by (simp add: notFoundApology_def)
  have returns: "\<exists>calls result. ?run = (?attomCall # calls, Inr result) \<and> messageText result \<noteq> []"
  proof (cases "attomFound ?A")
    case (Some ps)
    from attomHit [OF this] show ?thesis by simp
  next
    case attomNone: None
    show ?thesis
    proof (cases "isResidentialQuery q \<and> rentcastFound ?R \<noteq> None")
      case True
      then obtain rentalRecord where "rentcastFound ?R = Some rentalRecord" by auto
      from rentcastHit [OF attomNone _ this] True show ?thesis by simp
    next
      case False
      then have "isResidentialQuery q \<longrightarrow> rentcastFound ?R = None" by simp
      with attomNone have web: "?run = map_prod id Inr (webSearchStep e q p ?beforeWeb)"
        by (rule toWeb)
      show ?thesis
      proof (cases "webFound ?W")
        case None
        from webMiss [OF this] web apology show ?thesis by (cases "isResidentialQuery q") simp_all
      next
        case (Some hit)
        obtain rs ans where "hit = (rs, ans)" by (cases hit)
        with Some have "webFound ?W = Some (rs, ans)" by simp
        from webHit [OF this] web show ?thesis by (cases "isResidentialQuery q") simp_all
      qed
    qed
  qed
  have p2: "?run = ([?attomCall],
                   Inr \<lparr>success = True,
                        sourceLabel = Some ''ATTOM Data (Commercial & Residential)'',
                        found = ps, answer = None, errorText = None,
                        messageText = ''Found '' @ show_nat (length ps)
                                        @ '' properties using ATTOM Data.''\<rparr>)"
    if "?A = Inr (AttomResult err (Some ps)) \<and> \<not> given err \<and> ps \<noteq> []" for err ps
  proof -
    from that have "attomFound ?A = Some ps" by (simp only: attomFound_Some) blast
    then show ?thesis by (rule attomHit)
  qed
  have p3: "?run = ([?attomCall, ?rentcastCall],
                   Inr \<lparr>success = True, sourceLabel = Some ''RentCast (Residential)'',
                        found = [rentalRecord], answer = None, errorText = None,
                        messageText = ''Found residential property data using RentCast.''\<rparr>)"
    if "\<not> (\<exists>err ps. ?A = Inr (AttomResult err (Some ps)) \<and> \<not> given err \<and> ps \<noteq> [])
        \<and> isResidentialQuery q
        \<and> ?R = Inr (RentcastResult err rentalRecord) \<and> \<not> given err" for err rentalRecord
  proof -
    from that have a: "attomFound ?A = None" by (simp only: attomFound_None) blast
    from that have r: "rentcastFound ?R = Some rentalRecord"
      by (simp only: rentcastFound_Some) blast
    from that have "isResidentialQuery q" by blast
    with a show ?thesis using r by (rule rentcastHit)
  qed
  have p4: "?run = (?beforeWeb @ [?webCall],
                   Inr \<lparr>success = True, sourceLabel = Some ''Web Search'', found = rs,
                        answer = ans, errorText = None,
                        messageText = ''Found '' @ show_nat (length rs)
                                        @ '' web results about the property.''\<rparr>)"
    if "\<not> (\<exists>err ps. ?A = Inr (AttomResult err (Some ps)) \<and> \<not> given err \<and> ps \<noteq> [])
        \<and> (isResidentialQuery q \<longrightarrow>
             \<not> (\<exists>err rentalRecord. ?R = Inr (RentcastResult err rentalRecord) \<and> \<not> given err))
        \<and> ?W = Inr (WebResult err (Some rs) ans) \<and> \<not> given err \<and> rs \<noteq> []" for err rs ans
  proof -
    from that have a: "attomFound ?A = None" by (simp only: attomFound_None) blast
    from that have r: "isResidentialQuery q \<longrightarrow> rentcastFound ?R = None"
      by (simp only: rentcastFound_None) blast
    from that have w: "webFound ?W = Some (rs, ans)" by (simp only: webFound_Some) blast
    from toWeb [OF a r] webHit [OF w] show ?thesis by simp
  qed
  have p5: "?run = (?beforeWeb @ [?webCall],
                   Inr \<lparr>success = False, sourceLabel = None, found = [], answer = None,
                        errorText = Some ''Unable to find property information using any available data source.'',
                        messageText = notFoundApology\<rparr>)
              \<and> notFoundApology \<noteq> []"
    if "\<not> (\<exists>err ps. ?A = Inr (AttomResult err (Some ps)) \<and> \<not> given err \<and> ps \<noteq> [])
        \<and> (isResidentialQuery q \<longrightarrow>
             \<not> (\<exists>err rentalRecord. ?R = Inr (RentcastResult err rentalRecord) \<and> \<not> given err))
        \<and> \<not> (\<exists>err rs ans. ?W = Inr (WebResult err (Some rs) ans) \<and> \<not> given err \<and> rs \<noteq> [])"
  proof -
    from that have a: "attomFound ?A = None" by (simp only: attomFound_None) blast
    from that have r: "isResidentialQuery q \<longrightarrow> rentcastFound ?R = None"
      by (simp only: rentcastFound_None) blast
    from that have w: "webFound ?W = None" by (simp only: webFound_None) blast
    from toWeb [OF a r] webMiss [OF w] apology show ?thesis by simp
  qed
  show ?thesis
    unfolding Let_def
  proof (intro conjI allI impI)
    show "\<exists>calls result. ?run = (?attomCall # calls, Inr result) \<and> messageText result \<noteq> []"
      by (rule returns)
  qed (rule p2 p3 p4 p5 p5 [THEN conjunct1] p5 [THEN conjunct2]; assumption)+
qed

text \<open>With every provider failing for a rental query: ATTOM, RentCast and the web search
  are called in this order, and the result is the apology with \<^verbatim>\<open>success: false\<close>. With
  ATTOM finding no property for a query without rental vocabulary: RentCast is not
  called, and the search succeeds with what the web search found.\<close>

theorem multi_provider_search_witness:
  "executeSmartPropertySearch failingProviders rentalSearch
     = ([AttomCall ''/property/snapshot'' [(''address'', ''12 Oak St'')],
         RentCastCall ''12 Oak St'',
         WebCall ''Monthly rent for 12 Oak St 12 Oak St property real estate''],
        Inr \<lparr>success = False, sourceLabel = None, found = [], answer = None,
             errorText = Some ''Unable to find property information using any available data source.'',
             messageText = notFoundApology\<rparr>)
   \<and> notFoundApology \<noteq> []
   \<and> executeSmartPropertySearch webOnlyProviders officeSearch
     = ([AttomCall ''/property/snapshot''
           [(''address'', ''600 W Chicago Ave''), (''city'', ''Chicago''), (''state'', ''IL'')],
         WebCall ''Office tower 600 W Chicago Ave Chicago IL property real estate''],
        Inr \<lparr>success = True, sourceLabel = Some ''Web Search'',
             found = [''page one'', ''page two''], answer = Some ''An office tower.'',
             errorText = None,
             messageText = ''Found 2 web results about the property.''\<rparr>)"
proof -
  have q1: "query rentalSearch = Some ''Monthly rent for 12 Oak St''"
    by (simp add: rentalSearch_def)
  have res1: "isResidentialQuery ''Monthly rent for 12 Oak St''" by code_simp
  have g1: "generateAttomParameters failingProviders rentalSearch = [(''address'', ''12 Oak St'')]"
    by code_simp
  have f1: "constructFullAddress rentalSearch = ''12 Oak St''" by code_simp
  have w1: "constructWebSearchQuery ''Monthly rent for 12 Oak St'' rentalSearch
      = ''Monthly rent for 12 Oak St 12 Oak St property real estate''" by code_simp
  note t1 = multi_provider_search [OF q1, of failingProviders, unfolded Let_def]
  have allFail: "executeSmartPropertySearch failingProviders rentalSearch
     = ([AttomCall ''/property/snapshot'' [(''address'', ''12 Oak St'')],
         RentCastCall ''12 Oak St'',
         WebCall ''Monthly rent for 12 Oak St 12 Oak St property real estate''],
        Inr \<lparr>success = False, sourceLabel = None, found = [], answer = None,
             errorText = Some ''Unable to find property information using any available data source.'',
             messageText = notFoundApology\<rparr>)
   \<and> notFoundApology \<noteq> []"
    using t1 [THEN conjunct2, THEN conjunct2, THEN conjunct2, THEN conjunct2]
    by (simp add: res1 g1 f1 w1) (simp add: failingProviders_def)
  have q2: "query officeSearch = Some ''Office tower''"
    by (simp add: officeSearch_def)
  have res2: "\<not> isResidentialQuery ''Office tower''" by code_simp
  have g2: "generateAttomParameters webOnlyProviders officeSearch
      = [(''address'', ''600 W Chicago Ave''), (''city'', ''Chicago''), (''state'', ''IL'')]"
    by code_simp
  have w2: "constructWebSearchQuery ''Office tower'' officeSearch
      = ''Office tower 600 W Chicago Ave Chicago IL property real estate''" by code_simp
  have n2: "show_nat (Suc (Suc 0)) = ''2''" by (simp add: show_nat.simps digitChar_def)
  note t2 = multi_provider_search [OF q2, of webOnlyProviders, unfolded Let_def]
  have webHit: "executeSmartPropertySearch webOnlyProviders officeSearch
     = ([AttomCall ''/property/snapshot''
           [(''address'', ''600 W Chicago Ave''), (''city'', ''Chicago''), (''state'', ''IL'')],
         WebCall ''Office tower 600 W Chicago Ave Chicago IL property real estate''],
        Inr \<lparr>success = True, sourceLabel = Some ''Web Search'',
             found = [''page one'', ''page two''], answer = Some ''An office tower.'',
             errorText = None,
             messageText = ''Found 2 web results about the property.''\<rparr>)"
    using t2 [THEN conjunct2, THEN conjunct2, THEN conjunct2, THEN conjunct1, rule_format,
        of None "[''page one'', ''page two'']" "Some ''An office tower.''"]
    by (simp add: res2 g2 w2 n2) (simp add: webOnlyProviders_def given_def)
  from allFail webHit show ?thesis by (simp only: simp_thms)
qed

section \<open>Properties of the inbound webhook\<close>

lemma digitChar_inj: "a < 10 \<Longrightarrow> b < 10 \<Longrightarrow> digitChar a = digitChar b \<Longrightarrow> a = b"
  by (simp add: digitChar_def split: if_splits) arith

lemma show_nat_inj: "show_nat a = show_nat b \<Longrightarrow> a = b"
proof (induction a arbitrary: b rule: show_nat.induct)
  case (1 n)
  show ?case
  proof (cases "n < 10")
    case small: True
    show ?thesis
    proof (cases "b < 10")
      case True
      with small "1.prems" show ?thesis
        by (simp add: show_nat.simps [of n] show_nat.simps [of b] digitChar_inj)
    next
      case False
      with small "1.prems" show_nat_nonempty [of "b div 10"] show ?thesis
        by (simp add: show_nat.simps [of n] show_nat.simps [of b])
    qed
  next
    case big: False
    show ?thesis
    proof (cases "b < 10")
      case True
      with big "1.prems" show_nat_nonempty [of "n div 10"] show ?thesis
        by (simp add: show_nat.simps [of n] show_nat.simps [of b])
    next
      case False
      with big "1.prems" have front: "show_nat (n div 10) = show_nat (b div 10)"
        and units: "digitChar (n mod 10) = digitChar (b mod 10)"
        by (simp_all add: show_nat.simps [of n] show_nat.simps [of b])
      from "1.IH" [OF big front] have d: "n div 10 = b div 10" .
      have "n mod 10 < 10" and "b mod 10 < 10" by simp_all
      from digitChar_inj [OF this units] have m: "n mod 10 = b mod 10" .
      from d m show ?thesis by (metis div_mult_mod_eq)
    qed
  qed
qed

lemma idempotencyKey_sid:
  "given (MessageSid d) \<Longrightarrow> idempotencyKeyOf d now = ''sms:sid:'' @ orEmpty (MessageSid d)"
  by (simp add: idempotencyKeyOf_def)

lemma idempotencyKey_time:
  "\<not> given (MessageSid d) \<Longrightarrow> t1 \<noteq> t2 \<Longrightarrow> idempotencyKeyOf d t1 \<noteq> idempotencyKeyOf d t2"
  by (auto simp add: idempotencyKeyOf_def dest: show_nat_inj)

lemma optOutKey_differs: "''opt_out:'' @ x \<noteq> idempotencyKeyOf d now"
  by (simp add: idempotencyKeyOf_def)

lemma cacheGet_entries_other:
  "k \<noteq> key \<Longrightarrow> entries (snd (cacheGet c key now)) k = entries c k"
  by (simp add: cacheGet_def split: option.split)

lemma cacheSet_entries_other:
  "cacheSet c key ttl now = Some c' \<Longrightarrow> k \<noteq> key \<Longrightarrow> entries c' k = entries c k"
  by (auto simp add: cacheSet_def split: if_splits)

lemma cacheDel_entries_other: "k \<noteq> key \<Longrightarrow> entries (cacheDel c key) k = entries c k"
  by (simp add: cacheDel_def)

lemma afterClaim_entries:
  "entries (snd (snd (afterClaim d now done c))) (idempotencyKeyOf d' t) =
   entries c (idempotencyKeyOf d' t)"
proof -
  have ne: "idempotencyKeyOf d' t \<noteq> ''opt_out:'' @ normalizeNumber (From d)"
    using optOutKey_differs [of "normalizeNumber (From d)" d' t] by simp
  show ?thesis
    using cacheGet_entries_other [OF ne, of c now] cacheSet_entries_other [OF _ ne]
      cacheDel_entries_other [OF ne, of c]
    by (auto simp add: afterClaim_def Let_def split: option.split prod.split bool.split)
qed

lemma afterClaim_effects: "fst (snd (afterClaim d now [ev] c)) \<noteq> []"
  by (simp add: afterClaim_def Let_def split: option.split prod.split bool.split)

lemma cacheSet_entries_same:
  "cacheSet c key ttl now = Some c' \<Longrightarrow> entries c' key = Some (now + ttl * 1000)"
  by (auto simp add: cacheSet_def split: if_splits)

lemma handleSms_claims:
  assumes "handleSms production d t c = (r, es, c')" and "es \<noteq> []"
  shows "entries c' (idempotencyKeyOf d t) = Some (t + 600 * 1000)"
proof -
  let ?key = "idempotencyKeyOf d t"
  from assms have valid: "\<not> (production \<and> \<not> signatureVerifies d)"
    "\<not> (\<not> given (From d) \<or> \<not> given (Body d))"
    by (auto simp add: handleSms_def split: if_splits)
  obtain live c1 where get: "cacheGet c ?key t = (live, c1)" by (cases "cacheGet c ?key t")
  from assms valid get have fresh: "\<not> live"
    by (auto simp add: handleSms_def Let_def)
  from assms valid get fresh obtain c2 where set: "cacheSet c1 ?key 600 t = Some c2"
    by (cases "cacheSet c1 ?key 600 t") (auto simp add: handleSms_def Let_def)
  from assms valid get fresh set have "c' = snd (snd (afterClaim d t [Claimed ?key] c2))"
    by (auto simp add: handleSms_def Let_def)
  then have "entries c' ?key = entries c2 ?key" by (simp add: afterClaim_entries)
  with cacheSet_entries_same [OF set] show ?thesis by simp
qed

lemma handleSms_duplicate:
  assumes "entries c (idempotencyKeyOf d t) = Some expires" and "\<not> expires < t"
  shows "\<exists>r. handleSms production d t c = (r, [], c)
           \<and> (r = EmptyTwiml \<or> r = Forbidden \<or> r = MissingFields)
           \<and> ((production \<longrightarrow> signatureVerifies d) \<and> given (From d) \<and> given (Body d)
                \<longrightarrow> r = EmptyTwiml)"
  using assms by (auto simp add: handleSms_def Let_def cacheGet_def)

text \<open>
  Claim C4. A delivery with a \<^verbatim>\<open>MessageSid\<close> that the handler acted on (it claimed the
  key, and went on to the opt-out commands or to the processor) is followed, for the 600
  seconds the claim lasts, by no second action: a later delivery with the same
  \<^verbatim>\<open>MessageSid\<close> has no effect at all and leaves the cache as it is; when it passes the
  signature and field checks it is answered with the empty TwiML response.
\<close>

theorem redelivery_is_skipped:
  assumes "given (MessageSid d1)" and "MessageSid d2 = MessageSid d1"
    and "handleSms production d1 t1 c0 = (r1, es1, c1)" and "es1 \<noteq> []"
    and "t1 \<le> t2" and "t2 \<le> t1 + 600 * 1000"
  shows "\<exists>r2. handleSms production d2 t2 c1 = (r2, [], c1)
          \<and> (r2 = EmptyTwiml \<or> r2 = Forbidden \<or> r2 = MissingFields)
          \<and> ((production \<longrightarrow> signatureVerifies d2) \<and> given (From d2) \<and> given (Body d2)
               \<longrightarrow> r2 = EmptyTwiml)"
proof -
  from assms(1,2) have same: "idempotencyKeyOf d2 t2 = idempotencyKeyOf d1 t1"
    by (simp add: idempotencyKey_sid)
  from handleSms_claims [OF assms(3,4)] same
  have claimed: "entries c1 (idempotencyKeyOf d2 t2) = Some (t1 + 600 * 1000)" by simp
  from assms(6) have "\<not> t1 + 600 * 1000 < t2" by simp
  with claimed show ?thesis by (rule handleSms_duplicate)
qed

lemmas webhook_eval = handleSms_def afterClaim_def cacheGet_def cacheSet_def cacheDel_def
  idempotencyKeyOf_def normalizeNumber_def startsWithPlus_def given_def orEmpty_def
  toLowerCase_def lowerChar_def trim_def is_ws_def maxKeys_def Let_def
  helloDelivery_def helloWithSid_def emptyCache_def

text \<open>A first delivery is handed to the processor; the same delivery five seconds later
  is answered with the empty response and does nothing.\<close>

theorem redelivery_is_skipped_witness:
  "fst (snd (handleSms True helloWithSid 1700000000000 emptyCache))
     = [Claimed ''sms:sid:SM0123456789abcdef'',
        Processing ''+15550001111'' ''+15552223333'' ''hello'']
   \<and> fst (handleSms True helloWithSid 1700000005000
          (snd (snd (handleSms True helloWithSid 1700000000000 emptyCache)))) = EmptyTwiml
   \<and> fst (snd (handleSms True helloWithSid 1700000005000
          (snd (snd (handleSms True helloWithSid 1700000000000 emptyCache))))) = []"
proof -
  let ?first = "handleSms True helloWithSid 1700000000000 emptyCache"
  have es: "fst (snd ?first)
     = [Claimed ''sms:sid:SM0123456789abcdef'',
        Processing ''+15550001111'' ''+15552223333'' ''hello'']"
    by (simp add: webhook_eval)
  have sid: "given (MessageSid helloWithSid)"
    by (simp add: helloWithSid_def helloDelivery_def given_def)
  have acted: "fst (snd ?first) \<noteq> []" by (simp only: es) simp
  have window: "(1700000000000::nat) \<le> 1700000005000
      \<and> (1700000005000::nat) \<le> 1700000000000 + 600 * 1000" by simp
  have ok: "(True \<longrightarrow> signatureVerifies helloWithSid) \<and> given (From helloWithSid)
      \<and> given (Body helloWithSid)"
    by (simp add: helloWithSid_def helloDelivery_def given_def)
  have run: "?first = (fst ?first, fst (snd ?first), snd (snd ?first))" by simp
  from redelivery_is_skipped [OF sid refl run acted window [THEN conjunct1]
      window [THEN conjunct2]]
  obtain r2 where all: "handleSms True helloWithSid 1700000005000 (snd (snd ?first))
        = (r2, [], snd (snd ?first))
      \<and> (r2 = EmptyTwiml \<or> r2 = Forbidden \<or> r2 = MissingFields)
      \<and> ((True \<longrightarrow> signatureVerifies helloWithSid) \<and> given (From helloWithSid)
               \<and> given (Body helloWithSid) \<longrightarrow> r2 = EmptyTwiml)"
    by (rule exE)
  from all have second: "handleSms True helloWithSid 1700000005000 (snd (snd ?first))
        = (r2, [], snd (snd ?first))" by (rule conjunct1)
  from all have "(True \<longrightarrow> signatureVerifies helloWithSid) \<and> given (From helloWithSid)
               \<and> given (Body helloWithSid) \<longrightarrow> r2 = EmptyTwiml"
    by (rule conjunct2 [OF conjunct2])
  then have "r2 = EmptyTwiml" using ok by (rule mp)
  with second es show ?thesis by (simp only: fst_conv snd_conv simp_thms)
qed

lemma cacheGet_missing: "entries c key = None \<Longrightarrow> cacheGet c key now = (False, c)"
  by (simp add: cacheGet_def)

lemma cacheGet_False: "cacheGet c key now = (False, c') \<Longrightarrow> entries c' key = None"
  by (auto simp add: cacheGet_def split: option.splits if_splits)

lemma cacheSet_room: "keyCount c < maxKeys \<Longrightarrow> \<exists>c'. cacheSet c key ttl now = Some c'"
  by (simp add: cacheSet_def)

text \<open>What is known of a delivery that was handed to the processor.\<close>

lemma handleSms_processing:
  assumes "handleSms production d t c = (r, es, c')" and "Processing f to b \<in> set es"
  shows "\<not> (production \<and> \<not> signatureVerifies d)"
    and "\<not> (\<not> given (From d) \<or> \<not> given (Body d))"
    and "trim (toLowerCase (orEmpty (Body d)))
           \<notin> {''stop'', ''unsubscribe'', ''start'', ''subscribe'', ''help''}"
    and "f = normalizeNumber (From d)" and "to = normalizeNumber (To d)"
    and "b = orEmpty (Body d)"
    and "entries c' (''opt_out:'' @ normalizeNumber (From d)) = None"
    and "\<And>k. k \<noteq> idempotencyKeyOf d t \<Longrightarrow> k \<noteq> ''opt_out:'' @ normalizeNumber (From d)
           \<Longrightarrow> entries c' k = entries c k"
proof -
  let ?key = "idempotencyKeyOf d t"
  let ?opt = "''opt_out:'' @ normalizeNumber (From d)"
  from assms show valid: "\<not> (production \<and> \<not> signatureVerifies d)"
    "\<not> (\<not> given (From d) \<or> \<not> given (Body d))"
    by (auto simp add: handleSms_def split: if_splits)
  obtain live c1 where get: "cacheGet c ?key t = (live, c1)" by (cases "cacheGet c ?key t")
  from assms valid get have fresh: "\<not> live"
    by (auto simp add: handleSms_def Let_def)
  from assms valid get fresh obtain c2 where set: "cacheSet c1 ?key 600 t = Some c2"
    by (cases "cacheSet c1 ?key 600 t") (auto simp add: handleSms_def Let_def)
  from assms valid get fresh set
  have after: "afterClaim d t [Claimed ?key] c2 = (r, es, c')"
    by (auto simp add: handleSms_def Let_def)
  from after assms(2) show word: "trim (toLowerCase (orEmpty (Body d)))
           \<notin> {''stop'', ''unsubscribe'', ''start'', ''subscribe'', ''help''}"
    by (auto simp add: afterClaim_def Let_def split: option.splits if_splits)
  obtain out c3 where optGet: "cacheGet c2 ?opt t = (out, c3)" by (cases "cacheGet c2 ?opt t")
  from after word optGet assms(2) have free: "\<not> out"
    and es: "es = [Claimed ?key, Processing (normalizeNumber (From d)) (normalizeNumber (To d))
                     (orEmpty (Body d))]"
    and c': "c' = c3"
    by (cases out; auto simp add: afterClaim_def Let_def split: if_splits)+
  from es assms(2) show "f = normalizeNumber (From d)" and "to = normalizeNumber (To d)"
    and "b = orEmpty (Body d)" by simp_all
  from optGet free c' show "entries c' ?opt = None" by (simp add: cacheGet_False)
  show "entries c' k = entries c k" if "k \<noteq> ?key" and "k \<noteq> ?opt" for k
  proof -
    from optGet c' have "entries c' k = entries c2 k"
      using cacheGet_entries_other [OF that(2), of c2 t] by simp
    also have "\<dots> = entries c1 k" using set that(1) by (rule cacheSet_entries_other)
    also have "\<dots> = entries c k"
      using cacheGet_entries_other [OF that(1), of c t] get by simp
    finally show ?thesis .
  qed
qed

text \<open>
  Claim C10, as the code has it. Without a \<^verbatim>\<open>MessageSid\<close> the idempotency key is the
  sender, the body and \<^verbatim>\<open>Date.now()\<close>, in milliseconds. When a delivery without a
  \<^verbatim>\<open>MessageSid\<close> was handed to the processor, the same delivery handled at a different
  millisecond is handed to the processor again, under its own new key (the cache has room
  for the key, and the key of the second moment was not in the cache before); and the
  same delivery handled again within the same millisecond has the same key and is
  skipped: it is answered with the empty response, has no effect and leaves the cache as
  it is.
\<close>

theorem redelivery_without_sid:
  assumes "\<not> given (MessageSid d)" and "handleSms production d t1 c0 = (r1, es1, c1)"
    and "Processing f to b \<in> set es1"
  shows "idempotencyKeyOf d t1
           = ''sms:sid:'' @ orEmpty (From d) @ '':'' @ orEmpty (Body d) @ '':'' @ show_nat t1
       \<and> (t1 \<noteq> t2 \<and> entries c0 (idempotencyKeyOf d t2) = None \<and> keyCount c1 < maxKeys
            \<longrightarrow> (\<exists>c2. handleSms production d t2 c1
                   = (EmptyTwiml, [Claimed (idempotencyKeyOf d t2), Processing f to b], c2)))
       \<and> handleSms production d t1 c1 = (EmptyTwiml, [], c1)"
proof (intro conjI impI)
  show "idempotencyKeyOf d t1
           = ''sms:sid:'' @ orEmpty (From d) @ '':'' @ orEmpty (Body d) @ '':'' @ show_nat t1"
    using assms(1) by (simp add: idempotencyKeyOf_def)
next
  note facts = handleSms_processing [OF assms(2,3)]
  from assms(3) have acted: "es1 \<noteq> []" by auto
  from handleSms_claims [OF assms(2) acted]
  have claimed: "entries c1 (idempotencyKeyOf d t1) = Some (t1 + 600 * 1000)" .
  have live: "\<not> t1 + 600 * 1000 < t1" by simp
  from handleSms_duplicate [OF claimed live, of production]
  obtain r where run: "handleSms production d t1 c1 = (r, [], c1)"
    and ok: "(production \<longrightarrow> signatureVerifies d) \<and> given (From d) \<and> given (Body d)
                \<longrightarrow> r = EmptyTwiml"
    by blast
  from facts(1,2) ok have "r = EmptyTwiml" by blast
  with run show "handleSms production d t1 c1 = (EmptyTwiml, [], c1)" by simp
next
  assume later: "t1 \<noteq> t2 \<and> entries c0 (idempotencyKeyOf d t2) = None \<and> keyCount c1 < maxKeys"
  let ?key2 = "idempotencyKeyOf d t2"
  let ?opt = "''opt_out:'' @ normalizeNumber (From d)"
  note facts = handleSms_processing [OF assms(2,3)]
  from assms(1) later have keys: "?key2 \<noteq> idempotencyKeyOf d t1"
    using idempotencyKey_time [of d t2 t1] by auto
  have notOpt: "?key2 \<noteq> ?opt" using optOutKey_differs [of "normalizeNumber (From d)" d t2] by simp
  from facts(8) [OF keys notOpt] later have absent: "entries c1 ?key2 = None" by simp
  then have get: "cacheGet c1 ?key2 t2 = (False, c1)" by (rule cacheGet_missing)
  from later cacheSet_room obtain c2 where set: "cacheSet c1 ?key2 600 t2 = Some c2" by blast
  have "entries c2 ?opt = entries c1 ?opt"
    using set notOpt [symmetric] by (rule cacheSet_entries_other)
  with facts(7) have "entries c2 ?opt = None" by simp
  then have optGet: "cacheGet c2 ?opt t2 = (False, c2)" by (rule cacheGet_missing)
  from facts(3) optGet
  have "afterClaim d t2 [Claimed ?key2] c2
      = (EmptyTwiml, [Claimed ?key2, Processing (normalizeNumber (From d))
            (normalizeNumber (To d)) (orEmpty (Body d))], c2)"
    by (simp add: afterClaim_def Let_def)
  with facts(1,2) get set facts(4,5,6)
  have "handleSms production d t2 c1 = (EmptyTwiml, [Claimed ?key2, Processing f to b], c2)"
    by (simp add: handleSms_def Let_def)
  then show "\<exists>c2. handleSms production d t2 c1
                   = (EmptyTwiml, [Claimed (idempotencyKeyOf d t2), Processing f to b], c2)" ..
qed

text \<open>The same delivery without a \<^verbatim>\<open>MessageSid\<close>, handled again one millisecond later, is
  handed to the processor again; handled again in the same millisecond, it is skipped.\<close>

theorem redelivery_without_sid_witness:
  "fst (snd (handleSms True helloDelivery 1700000000000 emptyCache))
     = [Claimed ''sms:sid:+15550001111:hello:1700000000000'',
        Processing ''+15550001111'' ''+15552223333'' ''hello'']
   \<and> fst (snd (handleSms True helloDelivery 1700000000001
          (snd (snd (handleSms True helloDelivery 1700000000000 emptyCache)))))
     = [Claimed ''sms:sid:+15550001111:hello:1700000000001'',
        Processing ''+15550001111'' ''+15552223333'' ''hello'']
   \<and> handleSms True helloDelivery 1700000000000
          (snd (snd (handleSms True helloDelivery 1700000000000 emptyCache)))
     = (EmptyTwiml, [], snd (snd (handleSms True helloDelivery 1700000000000 emptyCache)))"
proof -
  let ?first = "handleSms True helloDelivery 1700000000000 emptyCache"
  have es: "fst (snd ?first)
     = [Claimed ''sms:sid:+15550001111:hello:1700000000000'',
        Processing ''+15550001111'' ''+15552223333'' ''hello'']"
    by (simp add: webhook_eval show_nat.simps digitChar_def)
  have key2: "idempotencyKeyOf helloDelivery 1700000000001
      = ''sms:sid:+15550001111:hello:1700000000001''"
    by (simp add: webhook_eval show_nat.simps digitChar_def)
  have nosid: "\<not> given (MessageSid helloDelivery)"
    by (simp add: helloDelivery_def given_def)
  have run: "?first = (fst ?first, fst (snd ?first), snd (snd ?first))" by simp
  have processed: "Processing ''+15550001111'' ''+15552223333'' ''hello'' \<in> set (fst (snd ?first))"
    by (simp only: es) simp
  have later: "(1700000000000::nat) \<noteq> 1700000000001
      \<and> entries emptyCache (idempotencyKeyOf helloDelivery 1700000000001) = None
      \<and> keyCount (snd (snd ?first)) < maxKeys"
    by (simp add: webhook_eval show_nat.simps digitChar_def)
  note all = redelivery_without_sid [OF nosid run processed, of 1700000000001]
  from all have "(1700000000000::nat) \<noteq> 1700000000001
      \<and> entries emptyCache (idempotencyKeyOf helloDelivery 1700000000001) = None
      \<and> keyCount (snd (snd ?first)) < maxKeys
      \<longrightarrow> (\<exists>c2. handleSms True helloDelivery 1700000000001 (snd (snd ?first))
      = (EmptyTwiml, [Claimed (idempotencyKeyOf helloDelivery 1700000000001),
           Processing ''+15550001111'' ''+15552223333'' ''hello''], c2))"
    by (rule conjunct1 [OF conjunct2])
  then have "\<exists>c2. handleSms True helloDelivery 1700000000001 (snd (snd ?first))
      = (EmptyTwiml, [Claimed (idempotencyKeyOf helloDelivery 1700000000001),
           Processing ''+15550001111'' ''+15552223333'' ''hello''], c2)"
    using later by (rule mp)
  then obtain c2 where second: "handleSms True helloDelivery 1700000000001 (snd (snd ?first))
      = (EmptyTwiml, [Claimed (idempotencyKeyOf helloDelivery 1700000000001),
           Processing ''+15550001111'' ''+15552223333'' ''hello''], c2)"
    by (rule exE)
  from all have same: "handleSms True helloDelivery 1700000000000 (snd (snd ?first))
      = (EmptyTwiml, [], snd (snd ?first))"
    by (rule conjunct2 [OF conjunct2])
  from es key2 second same show ?thesis by (simp only: fst_conv snd_conv simp_thms)
qed

text \<open>
  Claim C10 as the specification states it fails when the same delivery without a
  \<^verbatim>\<open>MessageSid\<close> is handled twice within one millisecond: the key is the same, and the
  second delivery is skipped as a duplicate.
\<close>

theorem redelivery_without_sid_counterexample:
  "fst (snd (handleSms True helloDelivery 1700000000000 emptyCache))
     = [Claimed ''sms:sid:+15550001111:hello:1700000000000'',
        Processing ''+15550001111'' ''+15552223333'' ''hello'']
   \<and> fst (snd (handleSms True helloDelivery 1700000000000
          (snd (snd (handleSms True helloDelivery 1700000000000 emptyCache))))) = []"
  by (simp add: webhook_eval show_nat.simps digitChar_def)

end
